theory Spec2Isabelle
  imports Complex_Main "HOL-Library.Multiset"
begin

section \<open>JavaScript values used by the components\<close>

text \<open>
  Strings are lists of characters; a character stands for one UTF-16 code unit below 256, so
  \<open>length\<close> is the \<open>.length\<close> of the source. The white space of \<open>String.prototype.trim\<close>,
  of the regular expression class \<open>\s\<close> and of \<open>parseInt\<close> is, in that range, TAB, LF, VT, FF,
  CR, SPACE and NBSP.
\<close>

definition isWhiteSpace :: "char \<Rightarrow> bool" where
  "isWhiteSpace c =
     (c \<in> set [CHR 0x09, CHR 0x0A, CHR 0x0B, CHR 0x0C, CHR 0x0D, CHR 0x20, CHR 0xA0])"

definition trim :: "string \<Rightarrow> string" where
  "trim s = rev (dropWhile isWhiteSpace (rev (dropWhile isWhiteSpace s)))"

text \<open>\<open>s.split(sep)\<close> for a separator of one character: never an empty array.\<close>

fun split :: "char \<Rightarrow> string \<Rightarrow> string list" where
  "split sep [] = [[]]"
| "split sep (c # cs) =
     (if c = sep then [] # split sep cs
      else (case split sep cs of
              [] \<Rightarrow> [[c]]
            | p # ps \<Rightarrow> (c # p) # ps))"

text \<open>The decimal digits: a digit's value is its place in this string.\<close>

definition decimal_digits :: string where
  "decimal_digits = ''0123456789''"

fun place_of :: "char \<Rightarrow> string \<Rightarrow> nat option" where
  "place_of c [] = None"
| "place_of c (x # xs) = (if c = x then Some 0 else map_option Suc (place_of c xs))"

definition digit_char :: "nat \<Rightarrow> char" where
  "digit_char d = decimal_digits ! d"

definition digit_val :: "char \<Rightarrow> nat option" where
  "digit_val c = place_of c decimal_digits"

definition isDigit :: "char \<Rightarrow> bool" where
  "isDigit c = (digit_val c \<noteq> None)"

text \<open>\<open>String(n)\<close> for an integer \<open>n\<close>: decimal digits, with a minus sign below zero.\<close>

fun digits_of_nat :: "nat \<Rightarrow> string" where
  "digits_of_nat n =
     (if n < 10 then [digit_char n]
      else digits_of_nat (n div 10) @ [digit_char (n mod 10)])"

declare digits_of_nat.simps [simp del]

definition String :: "int \<Rightarrow> string" where
  "String n = (if n < 0 then CHR ''-'' # digits_of_nat (nat (- n)) else digits_of_nat (nat n))"

text \<open>\<open>s.padStart(2, '0')\<close>.\<close>

definition padStart2 :: "string \<Rightarrow> string" where
  "padStart2 s = replicate (2 - length s) CHR ''0'' @ s"

text \<open>
  \<open>parseInt(s, 10)\<close>: leading white space is skipped, one sign is read, then the longest run
  of decimal digits; whatever follows the digits is ignored. \<open>None\<close> is \<open>NaN\<close> (no digit
  at that place). The value is exact here; the source's doubles agree up to \<open>2^53\<close>.
\<close>

definition value_of_digits :: "string \<Rightarrow> nat" where
  "value_of_digits ds = foldl (\<lambda>acc c. 10 * acc + the (digit_val c)) 0 ds"

definition parseInt :: "string \<Rightarrow> int option" where
  "parseInt s =
     (let t = dropWhile isWhiteSpace s;
          neg = (t \<noteq> [] \<and> hd t = CHR ''-'');
          u = (if t \<noteq> [] \<and> (hd t = CHR ''-'' \<or> hd t = CHR ''+'') then tl t else t);
          ds = takeWhile isDigit u
      in if ds = [] then None
         else Some (if neg then - int (value_of_digits ds) else int (value_of_digits ds)))"

text \<open>The exceptions the handlers can raise.\<close>

datatype js_error = TypeError | ReferenceError

section \<open>ValidationEngine and TextField (CustomTextInput)\<close>

datatype rule_type = Required | MinLength | MaxLength | Regex | Email | Custom

text \<open>
  \<open>value?: any\<close> of a rule: absent, a number, or a regular expression, which is taken as the
  predicate its \<open>test\<close> method computes.
\<close>

datatype rule_value = Undefined | Num int | RegExp "string \<Rightarrow> bool"

record ValidationRule =
  rtype :: rule_type
  rvalue :: rule_value
  message :: string
  validator :: "(string \<Rightarrow> bool) option"

text \<open>Truthiness of \<open>rule.value\<close>, and \<open>n < rule.value\<close> after \<open>ToNumber\<close> (\<open>NaN\<close> compares false).\<close>

fun truthy :: "rule_value \<Rightarrow> bool" where
  "truthy Undefined = False"
| "truthy (Num n) = (n \<noteq> 0)"
| "truthy (RegExp p) = True"

fun js_less :: "int \<Rightarrow> rule_value \<Rightarrow> bool" where
  "js_less n (Num k) = (n < k)"
| "js_less n v = False"

fun js_greater :: "int \<Rightarrow> rule_value \<Rightarrow> bool" where
  "js_greater n (Num k) = (n > k)"
| "js_greater n v = False"

text \<open>
  \<open>/^[^\s@]+@[^\s@]+\.[^\s@]+$/.test(text)\<close>. The first class cannot cross an \<open>@\<close>, so it
  matches the longest prefix free of white space and \<open>@\<close>; the rest after the \<open>@\<close> must be
  free of both and hold a dot that is neither its first nor its last character.
\<close>

definition plain :: "char \<Rightarrow> bool" where
  "plain c = (\<not> isWhiteSpace c \<and> c \<noteq> CHR ''@'')"

fun dot_inside :: "string \<Rightarrow> bool" where
  "dot_inside (a # b # c # cs) = ((b = CHR ''.'') \<or> dot_inside (b # c # cs))"
| "dot_inside cs = False"

definition emailRegex_test :: "string \<Rightarrow> bool" where
  "emailRegex_test text =
     (let local = takeWhile plain text; rest = dropWhile plain text
      in local \<noteq> [] \<and> rest \<noteq> [] \<and> hd rest = CHR ''@'' \<and>
         list_all plain (tl rest) \<and> dot_inside (tl rest))"

text \<open>
  One turn of \<open>validators.forEach\<close>: the \<open>switch\<close> on \<open>rule.type\<close>, returning the array
  \<open>validationErrors\<close> after the turn. A regex rule whose value is a non-zero number calls
  \<open>rule.value.test\<close>, which is not a function.
\<close>

definition check_rule :: "string \<Rightarrow> ValidationRule \<Rightarrow> string list \<Rightarrow> js_error + string list" where
  "check_rule text rule validationErrors =
     (case rtype rule of
        Required \<Rightarrow>
          if trim text = [] then Inr (validationErrors @ [message rule])
          else Inr validationErrors
      | MinLength \<Rightarrow>
          if js_less (int (length text)) (rvalue rule) then Inr (validationErrors @ [message rule])
          else Inr validationErrors
      | MaxLength \<Rightarrow>
          if js_greater (int (length text)) (rvalue rule) then Inr (validationErrors @ [message rule])
          else Inr validationErrors
      | Email \<Rightarrow>
          if text \<noteq> [] \<and> \<not> emailRegex_test text then Inr (validationErrors @ [message rule])
          else Inr validationErrors
      | Regex \<Rightarrow>
          if truthy (rvalue rule) \<and> text \<noteq> [] then
            (case rvalue rule of
               RegExp test \<Rightarrow>
                 if \<not> test text then Inr (validationErrors @ [message rule])
                 else Inr validationErrors
             | _ \<Rightarrow> Inl TypeError)
          else Inr validationErrors
      | Custom \<Rightarrow>
          (case validator rule of
             Some v \<Rightarrow>
               if \<not> v text then Inr (validationErrors @ [message rule]) else Inr validationErrors
           | None \<Rightarrow> Inr validationErrors))"

fun forEach_rule :: "ValidationRule list \<Rightarrow> string \<Rightarrow> string list \<Rightarrow> js_error + string list" where
  "forEach_rule [] text validationErrors = Inr validationErrors"
| "forEach_rule (rule # rules) text validationErrors =
     (case check_rule text rule validationErrors of
        Inl e \<Rightarrow> Inl e
      | Inr validationErrors' \<Rightarrow> forEach_rule rules text validationErrors')"

definition validate :: "ValidationRule list \<Rightarrow> string \<Rightarrow> js_error + string list" where
  "validate validators text = forEach_rule validators text []"

text \<open>
  The rules of the specification, in its words: when a rule fails on a value. A length rule
  without a numeric parameter gives no bound, a regex rule without a pattern and a custom rule
  without a predicate have nothing to fail.
\<close>

definition rule_fails :: "string \<Rightarrow> ValidationRule \<Rightarrow> bool" where
  "rule_fails v r =
     (case rtype r of
        Required \<Rightarrow> trim v = []
      | MinLength \<Rightarrow> (case rvalue r of Num n \<Rightarrow> int (length v) < n | _ \<Rightarrow> False)
      | MaxLength \<Rightarrow> (case rvalue r of Num n \<Rightarrow> n < int (length v) | _ \<Rightarrow> False)
      | Email \<Rightarrow> v \<noteq> [] \<and> \<not> emailRegex_test v
      | Regex \<Rightarrow> (case rvalue r of RegExp p \<Rightarrow> v \<noteq> [] \<and> \<not> p v | _ \<Rightarrow> False)
      | Custom \<Rightarrow> (case validator r of Some p \<Rightarrow> \<not> p v | None \<Rightarrow> False))"

text \<open>A rule is well formed when the parameter of a regex rule, if given, is a pattern.\<close>

definition well_formed :: "ValidationRule \<Rightarrow> bool" where
  "well_formed r =
     (case rtype r of
        Regex \<Rightarrow> (case rvalue r of Num n \<Rightarrow> False | _ \<Rightarrow> True)
      | _ \<Rightarrow> True)"

record TextInput_props =
  validators :: "ValidationRule list"
  externalValue :: "string option"

record TextInput_state =
  internalValue :: string
  isFocused :: bool
  isTouched :: bool
  errors :: "string list"

datatype TextInput_call = OnChangeText string | OnValidate bool

definition TextInput_mount :: TextInput_state where
  "TextInput_mount = \<lparr>internalValue = [], isFocused = False, isTouched = False, errors = []\<rparr>"

definition isControlled :: "TextInput_props \<Rightarrow> bool" where
  "isControlled p = (externalValue p \<noteq> None)"

definition current_value :: "TextInput_props \<Rightarrow> TextInput_state \<Rightarrow> string" where
  "current_value p s = (case externalValue p of Some v \<Rightarrow> v | None \<Rightarrow> internalValue s)"

text \<open>
  A handler returns the state after its setters and the callbacks it made, in order, or the
  exception of \<open>validate\<close>.
\<close>

definition handleChangeText ::
  "TextInput_props \<Rightarrow> TextInput_state \<Rightarrow> string \<Rightarrow> js_error + TextInput_state \<times> TextInput_call list"
where
  "handleChangeText p s text =
     (let s1 = (if \<not> isControlled p then s\<lparr>internalValue := text\<rparr> else s)
      in if isTouched s then
           (case validate (validators p) text of
              Inl e \<Rightarrow> Inl e
            | Inr validationErrors \<Rightarrow>
                Inr (s1\<lparr>errors := validationErrors\<rparr>,
                     [OnChangeText text, OnValidate (length validationErrors = 0)]))
         else Inr (s1, [OnChangeText text]))"

definition handleFocus :: "TextInput_state \<Rightarrow> TextInput_state" where
  "handleFocus s = s\<lparr>isFocused := True\<rparr>"

definition handleBlur ::
  "TextInput_props \<Rightarrow> TextInput_state \<Rightarrow> js_error + TextInput_state \<times> TextInput_call list"
where
  "handleBlur p s =
     (case validate (validators p) (current_value p s) of
        Inl e \<Rightarrow> Inl e
      | Inr validationErrors \<Rightarrow>
          Inr (s\<lparr>isFocused := False, isTouched := True, errors := validationErrors\<rparr>,
               [OnValidate (length validationErrors = 0)]))"

definition hasError :: "TextInput_state \<Rightarrow> bool" where
  "hasError s = (isTouched s \<and> length (errors s) > 0)"

definition isSuccess :: "TextInput_props \<Rightarrow> TextInput_state \<Rightarrow> bool" where
  "isSuccess p s =
     (isTouched s \<and> length (errors s) = 0 \<and> length (trim (current_value p s)) > 0)"

text \<open>The messages rendered under the input: all of \<open>errors\<close>, and only when \<open>hasError\<close>.\<close>

definition shownMessages :: "TextInput_state \<Rightarrow> string list" where
  "shownMessages s = (if hasError s then errors s else [])"

section \<open>DateField (CalendarPicker)\<close>

text \<open>
  A \<open>Date\<close> read in local time: the calendar fields under the names of their getters
  (\<open>getMonth\<close> counts from 0) and the milliseconds since local midnight. Two dates compare
  by their time values, that is lexicographically by these fields.
\<close>

record Date =
  getFullYear :: int
  getMonth :: int
  getDate :: int
  timeOfDay :: nat

definition Date_less :: "Date \<Rightarrow> Date \<Rightarrow> bool" where
  "Date_less a b =
     (getFullYear a < getFullYear b
      \<or> (getFullYear a = getFullYear b
         \<and> (getMonth a < getMonth b
            \<or> (getMonth a = getMonth b
               \<and> (getDate a < getDate b
                  \<or> (getDate a = getDate b \<and> timeOfDay a < timeOfDay b))))))"

definition isLeapYear :: "int \<Rightarrow> bool" where
  "isLeapYear y = (y mod 4 = 0 \<and> (y mod 100 \<noteq> 0 \<or> y mod 400 = 0))"

definition daysInMonth :: "int \<Rightarrow> int \<Rightarrow> int" where
  "daysInMonth y m =
     (if m = 1 then (if isLeapYear y then 29 else 28)
      else if m = 3 \<or> m = 5 \<or> m = 8 \<or> m = 10 then 30
      else 31)"

text \<open>
  The day of \<open>new Date(year, month, day)\<close> rolls over: a day before the first moves into
  the months before, a day after the last into the months after. The month is in \<open>0..11\<close>
  here; December and January have 31 days.
\<close>

function roll_date :: "int \<Rightarrow> int \<Rightarrow> int \<Rightarrow> int \<times> int \<times> int" where
  "roll_date y m d =
     (if d < 1 then
        (if m = 0 then roll_date (y - 1) 11 (d + 31)
         else roll_date y (m - 1) (d + daysInMonth y (m - 1)))
      else if d > daysInMonth y m then
        (if m = 11 then roll_date (y + 1) 0 (d - 31)
         else roll_date y (m + 1) (d - daysInMonth y m))
      else (y, m, d))"
  by pat_completeness auto
termination
  by (relation "measure (\<lambda>(y, m, d). nat (if d < 1 then 100 - d else d))")
     (auto simp: daysInMonth_def)

declare roll_date.simps [simp del]

text \<open>
  The time values of a \<open>Date\<close> span 100,000,000 days either side of 1 January 1970: from
  20 April -271821 to 13 September 275760.
\<close>

definition in_time_range :: "int \<Rightarrow> int \<Rightarrow> int \<Rightarrow> bool" where
  "in_time_range y m d =
     ((- 271821 < y \<or> (y = - 271821 \<and> (3 < m \<or> (m = 3 \<and> 20 \<le> d))))
      \<and> (y < 275760 \<or> (y = 275760 \<and> (m < 8 \<or> (m = 8 \<and> d \<le> 13)))))"

text \<open>
  \<open>new Date(year, month, day)\<close> on numbers that may be \<open>NaN\<close> (\<open>None\<close>). A year from 0 to 99
  stands for 1900 + year; months outside \<open>0..11\<close> carry into the year; the day rolls over.
  The result \<open>None\<close> is the invalid date, whose \<open>getTime()\<close> is \<open>NaN\<close>.
\<close>

definition new_Date :: "int option \<Rightarrow> int option \<Rightarrow> int option \<Rightarrow> Date option" where
  "new_Date year month day =
     (case (year, month, day) of
        (Some y, Some m, Some d) \<Rightarrow>
          (let yr = (if 0 \<le> y \<and> y \<le> 99 then 1900 + y else y)
           in case roll_date (yr + m div 12) (m mod 12) d of
                (y', m', d') \<Rightarrow>
                  if in_time_range y' m' d'
                  then Some \<lparr>getFullYear = y', getMonth = m', getDate = d', timeOfDay = 0\<rparr>
                  else None)
      | _ \<Rightarrow> None)"

datatype DateFormat = DD_MM_YYYY | MM_DD_YYYY | YYYY_MM_DD

fun format_name :: "DateFormat \<Rightarrow> string" where
  "format_name DD_MM_YYYY = ''DD/MM/YYYY''"
| "format_name MM_DD_YYYY = ''MM/DD/YYYY''"
| "format_name YYYY_MM_DD = ''YYYY-MM-DD''"

definition formatDate :: "DateFormat \<Rightarrow> Date \<Rightarrow> string" where
  "formatDate format date =
     (let day = padStart2 (String (getDate date));
          month = padStart2 (String (getMonth date + 1));
          year = String (getFullYear date)
      in case format of
           DD_MM_YYYY \<Rightarrow> day @ ''/'' @ month @ ''/'' @ year
         | MM_DD_YYYY \<Rightarrow> month @ ''/'' @ day @ ''/'' @ year
         | YYYY_MM_DD \<Rightarrow> year @ ''-'' @ month @ ''-'' @ day)"

text \<open>
  The end of \<open>parseDate\<close>: construct the date and compare its fields with the numbers read
  (\<open>NaN\<close> differs from every field).
\<close>

definition checked_Date :: "int option \<Rightarrow> int option \<Rightarrow> int option \<Rightarrow> Date option" where
  "checked_Date year month day =
     (case new_Date year month day of
        None \<Rightarrow> None
      | Some date \<Rightarrow>
          if Some (getDate date) \<noteq> day \<or> Some (getMonth date) \<noteq> month
             \<or> Some (getFullYear date) \<noteq> year
          then None else Some date)"

definition minus1 :: "int option \<Rightarrow> int option" where
  "minus1 n = map_option (\<lambda>k. k - 1) n"

definition parseDate :: "DateFormat \<Rightarrow> string \<Rightarrow> Date option" where
  "parseDate format dateString =
     (if trim dateString = [] then None
      else case format of
        DD_MM_YYYY \<Rightarrow>
          (let parts = split CHR ''/'' dateString
           in if length parts \<noteq> 3 then None
              else checked_Date (parseInt (parts ! 2)) (minus1 (parseInt (parts ! 1)))
                     (parseInt (parts ! 0)))
      | MM_DD_YYYY \<Rightarrow>
          (let parts = split CHR ''/'' dateString
           in if length parts \<noteq> 3 then None
              else checked_Date (parseInt (parts ! 2)) (minus1 (parseInt (parts ! 0)))
                     (parseInt (parts ! 1)))
      | YYYY_MM_DD \<Rightarrow>
          (let parts = split CHR ''-'' dateString
           in if length parts \<noteq> 3 then None
              else checked_Date (parseInt (parts ! 0)) (minus1 (parseInt (parts ! 1)))
                     (parseInt (parts ! 2))))"

record CalendarPicker_props =
  format :: DateFormat
  minDate :: "Date option"
  maxDate :: "Date option"
  required :: bool

definition validateDate :: "CalendarPicker_props \<Rightarrow> string \<Rightarrow> string" where
  "validateDate p dateString =
     (if required p \<and> trim dateString = [] then ''Date is required''
      else if trim dateString = [] then []
      else case parseDate (format p) dateString of
        None \<Rightarrow> ''Invalid date format. Use '' @ format_name (format p)
      | Some date \<Rightarrow>
          (case minDate p of
             Some lo \<Rightarrow>
               if Date_less date lo then ''Date must be after '' @ formatDate (format p) lo
               else (case maxDate p of
                       Some hi \<Rightarrow>
                         if Date_less hi date
                         then ''Date must be before '' @ formatDate (format p) hi
                         else []
                     | None \<Rightarrow> [])
           | None \<Rightarrow>
               (case maxDate p of
                  Some hi \<Rightarrow>
                    if Date_less hi date
                    then ''Date must be before '' @ formatDate (format p) hi
                    else []
                | None \<Rightarrow> [])))"

record CalendarPicker_state =
  textValue :: string
  error :: string
  isTouched_date :: bool

definition CalendarPicker_mount :: "string \<Rightarrow> CalendarPicker_state" where
  "CalendarPicker_mount v = \<lparr>textValue = v, error = [], isTouched_date = False\<rparr>"

text \<open>
  \<open>handleTextChange\<close> returns the state after its setters and what became of the call: the
  texts passed to \<open>onChange\<close>, or the exception raised. Its \<open>const validationError\<close> is
  declared inside the block of \<open>if (isTouched)\<close>; the test \<open>if (!validationError)\<close> comes
  after that block, where no scope binds the name, so evaluating it raises a ReferenceError
  and \<open>onChange\<close> is not reached.
\<close>

definition handleTextChange ::
  "CalendarPicker_props \<Rightarrow> CalendarPicker_state \<Rightarrow> string
     \<Rightarrow> CalendarPicker_state \<times> (js_error + string list)"
where
  "handleTextChange p s text =
     (let s1 = s\<lparr>textValue := text\<rparr>;
          s2 = (if isTouched_date s then s1\<lparr>error := validateDate p text\<rparr> else s1)
      in (s2, Inl ReferenceError))"

definition handleBlur_date :: "CalendarPicker_props \<Rightarrow> CalendarPicker_state \<Rightarrow> CalendarPicker_state" where
  "handleBlur_date p s = s\<lparr>isTouched_date := True, error := validateDate p (textValue s)\<rparr>"

section \<open>FileSelectionSet (FilePicker)\<close>

record SelectedFile =
  uri :: string
  name :: string
  file_size :: nat
  mimeType :: "string option"

text \<open>An asset of the document picker: its size and MIME type may be missing.\<close>

record Asset =
  asset_uri :: string
  asset_name :: string
  asset_size :: "nat option"
  asset_mimeType :: "string option"

record PickerResult =
  canceled :: bool
  assets :: "Asset list option"

text \<open>
  The props the logic reads. \<open>formatFileSize\<close> is the text the source's function of that name
  gives for a byte count; it is computed there with floating-point logarithms and is kept
  abstract here.
\<close>

record FilePicker_props =
  maxFiles :: nat
  maxSizePerFile :: nat
  maxTotalSize :: nat
  allowedTypes :: "string list"
  required_files :: bool
  formatFileSize :: "nat \<Rightarrow> string"

record FilePicker_state =
  files :: "SelectedFile list"
  error_files :: string
  isTouched_files :: bool

datatype FilePicker_effect = Alert string string | OnChange "SelectedFile list"

definition startsWith :: "string \<Rightarrow> string \<Rightarrow> bool" where
  "startsWith s p = (take (length p) s = p)"

definition endsWith :: "string \<Rightarrow> string \<Rightarrow> bool" where
  "endsWith s p = (length p \<le> length s \<and> drop (length s - length p) s = p)"

text \<open>\<open>s.lastIndexOf(c)\<close>: the last position of \<open>c\<close>, or \<open>-1\<close>.\<close>

fun lastIndexOf :: "string \<Rightarrow> char \<Rightarrow> int" where
  "lastIndexOf [] c = - 1"
| "lastIndexOf (x # xs) c =
     (let i = lastIndexOf xs c
      in if i \<noteq> - 1 then i + 1 else if x = c then 0 else - 1)"

text \<open>\<open>toLowerCase\<close> on code units below 256: the letters A to Z and the capital letters of Latin-1.\<close>

definition toLower :: "char \<Rightarrow> char" where
  "toLower c =
     (let n = (of_char c :: nat)
      in if (65 \<le> n \<and> n \<le> 90) \<or> (192 \<le> n \<and> n \<le> 222 \<and> n \<noteq> 215) then char_of (n + 32) else c)"

text \<open>
  \<open>filename.slice(((filename.lastIndexOf('.') - 1) >>> 0) + 2).toLowerCase()\<close>; the unsigned
  shift by 0 reads its operand modulo \<open>2^32\<close>, so no dot and a leading dot give the empty
  extension.
\<close>

definition getFileExtension :: "string \<Rightarrow> string" where
  "getFileExtension filename =
     map toLower (drop (nat ((lastIndexOf filename CHR ''.'' - 1) mod 2 ^ 32 + 2)) filename)"

definition mime_allowed :: "string \<Rightarrow> string \<Rightarrow> bool" where
  "mime_allowed mime allowed =
     (allowed = mime
      \<or> (endsWith allowed ''/*'' \<and> startsWith mime (hd (split CHR ''/'' allowed) @ ''/'')))"

definition extension_allowed :: "string \<Rightarrow> string \<Rightarrow> bool" where
  "extension_allowed extension allowed = (startsWith allowed ''.'' \<and> drop 1 allowed = extension)"

definition isFileTypeAllowed :: "FilePicker_props \<Rightarrow> string option \<Rightarrow> string \<Rightarrow> bool" where
  "isFileTypeAllowed p mime filename =
     (if ''*/*'' \<in> set (allowedTypes p) then True
      else if (case mime of
                 Some m \<Rightarrow> m \<noteq> [] \<and> list_ex (mime_allowed m) (allowedTypes p)
               | None \<Rightarrow> False) then True
      else if filename \<noteq> []
              \<and> list_ex (extension_allowed (getFileExtension filename)) (allowedTypes p) then True
      else False)"

definition max_files_message :: "FilePicker_props \<Rightarrow> string" where
  "max_files_message p = ''Maximum '' @ String (int (maxFiles p)) @ '' file(s) allowed''"

definition totalSize :: "SelectedFile list \<Rightarrow> nat" where
  "totalSize selectedFiles = foldl (\<lambda>sum file. sum + file_size file) 0 selectedFiles"

definition validateFiles :: "FilePicker_props \<Rightarrow> SelectedFile list \<Rightarrow> string" where
  "validateFiles p selectedFiles =
     (if required_files p \<and> length selectedFiles = 0 then ''At least one file is required''
      else if length selectedFiles > maxFiles p then max_files_message p
      else case find (\<lambda>file. file_size file > maxSizePerFile p) selectedFiles of
        Some file \<Rightarrow>
          name file @ '' exceeds maximum size of '' @ formatFileSize p (maxSizePerFile p)
      | None \<Rightarrow>
          if totalSize selectedFiles > maxTotalSize p
          then ''Total size '' @ formatFileSize p (totalSize selectedFiles)
                 @ '' exceeds maximum of '' @ formatFileSize p (maxTotalSize p)
          else [])"

text \<open>
  The loop of \<open>handlePickFiles\<close> over the assets: the files that pass the type and size tests,
  in order, and the alert raised for each asset dropped.
\<close>

definition type_ok :: "FilePicker_props \<Rightarrow> Asset \<Rightarrow> bool" where
  "type_ok p a = isFileTypeAllowed p (asset_mimeType a) (asset_name a)"

definition size_ok :: "FilePicker_props \<Rightarrow> Asset \<Rightarrow> bool" where
  "size_ok p a =
     (case asset_size a of
        Some n \<Rightarrow> \<not> (n \<noteq> 0 \<and> n > maxSizePerFile p)
      | None \<Rightarrow> True)"

definition to_file :: "Asset \<Rightarrow> SelectedFile" where
  "to_file a =
     \<lparr>uri = asset_uri a, name = asset_name a,
      file_size = (case asset_size a of Some n \<Rightarrow> n | None \<Rightarrow> 0),
      mimeType = asset_mimeType a\<rparr>"

fun join :: "string \<Rightarrow> string list \<Rightarrow> string" where
  "join sep [] = []"
| "join sep [x] = x"
| "join sep (x # y # ys) = x @ sep @ join sep (y # ys)"

fun filter_assets ::
  "FilePicker_props \<Rightarrow> Asset list \<Rightarrow> SelectedFile list \<times> FilePicker_effect list"
where
  "filter_assets p [] = ([], [])"
| "filter_assets p (a # as) =
     (case filter_assets p as of
        (newFiles, alerts) \<Rightarrow>
          if \<not> type_ok p a then
            (newFiles,
             Alert ''Invalid File Type''
               (asset_name a @ '' is not an allowed file type.'' @ [CHR 0x0A] @ ''Allowed: ''
                  @ join '', '' (allowedTypes p)) # alerts)
          else if \<not> size_ok p a then
            (newFiles,
             Alert ''File Too Large''
               (asset_name a @ '' ('' @ formatFileSize p (the (asset_size a))
                  @ '') exceeds maximum size of '' @ formatFileSize p (maxSizePerFile p)) # alerts)
          else (to_file a # newFiles, alerts))"

text \<open>The component at mount: \<open>useState(value)\<close>, \<open>useState('')\<close>, \<open>useState(false)\<close>.\<close>

definition FilePicker_mount :: "SelectedFile list \<Rightarrow> FilePicker_state" where
  "FilePicker_mount v = \<lparr>files = v, error_files = [], isTouched_files = False\<rparr>"

text \<open>
  \<open>handlePickFiles\<close>, given what the document picker returns when it is opened: the state
  after the setters and the alerts and \<open>onChange\<close> calls made, in order.
\<close>

definition handlePickFiles ::
  "FilePicker_props \<Rightarrow> FilePicker_state \<Rightarrow> PickerResult \<Rightarrow> FilePicker_state \<times> FilePicker_effect list"
where
  "handlePickFiles p s result =
     (let s0 = s\<lparr>isTouched_files := True\<rparr>
      in if length (files s) \<ge> maxFiles p then
           (s0\<lparr>error_files := max_files_message p\<rparr>,
            [Alert ''Limit Reached''
               (''You can only select up to '' @ String (int (maxFiles p)) @ '' file(s)'')])
         else if canceled result then (s0, [])
         else
           (case filter_assets p (case assets result of Some as \<Rightarrow> as | None \<Rightarrow> []) of
              (newFiles, alerts) \<Rightarrow>
                if length newFiles = 0 then (s0, alerts)
                else
                  (let updatedFiles = take (maxFiles p) (files s @ newFiles);
                       validationError = validateFiles p updatedFiles
                   in if validationError = []
                      then (s0\<lparr>error_files := validationError, files := updatedFiles\<rparr>,
                            alerts @ [OnChange updatedFiles])
                      else (s0\<lparr>error_files := validationError\<rparr>, alerts))))"

text \<open>\<open>files.filter((_, i) => i !== index)\<close>.\<close>

fun remove_at :: "nat \<Rightarrow> 'a list \<Rightarrow> 'a list" where
  "remove_at i [] = []"
| "remove_at 0 (x # xs) = xs"
| "remove_at (Suc i) (x # xs) = x # remove_at i xs"

definition handleRemoveFile ::
  "FilePicker_props \<Rightarrow> FilePicker_state \<Rightarrow> nat \<Rightarrow> FilePicker_state \<times> FilePicker_effect list"
where
  "handleRemoveFile p s index =
     (let updatedFiles = remove_at index (files s)
      in (s\<lparr>files := updatedFiles, error_files := validateFiles p updatedFiles\<rparr>,
          [OnChange updatedFiles]))"

definition handleClearAll :: "FilePicker_state \<Rightarrow> FilePicker_state \<times> FilePicker_effect list" where
  "handleClearAll s = (s\<lparr>files := [], error_files := []\<rparr>, [OnChange []])"

definition hasError_files :: "FilePicker_state \<Rightarrow> bool" where
  "hasError_files s = (isTouched_files s \<and> length (error_files s) > 0)"

section \<open>AnimatedCounter (CounterTimer)\<close>

datatype TimerState = idle | running | paused | completed

datatype EasingName = linear | easeInOut | easeOut

record CounterTimer_props =
  targetNumber :: real
  durationSec :: real
  easing :: EasingName

text \<open>
  \<open>withTiming(toValue, {duration, easing}, callback)\<close> assigned to the shared value: an
  interpolation in flight, from the value held at the assignment to \<open>toValue\<close>, over
  \<open>duration\<close> milliseconds.
\<close>

record Timing =
  fromValue :: real
  toValue :: real
  duration :: real
  timing_easing :: EasingName

text \<open>
  The component's own state: the React state \<open>state\<close> and \<open>displayValue\<close>, the shared value
  \<open>progress\<close> as it stands when a handler runs, and the interpolation driving it, if any.
  Numbers are reals here, not doubles.
\<close>

record CounterTimer =
  state :: TimerState
  progress :: real
  animation :: "Timing option"
  displayValue :: string

definition CounterTimer_mount :: CounterTimer where
  "CounterTimer_mount = \<lparr>state = idle, progress = 0, animation = None, displayValue = ''0''\<rparr>"

text \<open>\<open>Math.max(0, targetNumber || 0)\<close> and \<open>Math.max(0.1, Math.min(3600, durationSec || 1))\<close>.\<close>

definition validTarget :: "CounterTimer_props \<Rightarrow> real" where
  "validTarget p = max 0 (targetNumber p)"

definition validDuration :: "CounterTimer_props \<Rightarrow> real" where
  "validDuration p = max (1 / 10) (min 3600 (if durationSec p = 0 then 1 else durationSec p))"

text \<open>\<open>cancelAnimation(progress)\<close>: the interpolation stops and the value stays where it is.\<close>

definition cancelAnimation :: "CounterTimer \<Rightarrow> CounterTimer" where
  "cancelAnimation c = c\<lparr>animation := None\<rparr>"

text \<open>\<open>progress.value = withTiming(1, {duration, easing}, ...)\<close>.\<close>

definition withTiming :: "real \<Rightarrow> real \<Rightarrow> EasingName \<Rightarrow> CounterTimer \<Rightarrow> CounterTimer" where
  "withTiming target ms e c =
     c\<lparr>animation := Some \<lparr>fromValue = progress c, toValue = target, duration = ms,
                            timing_easing = e\<rparr>\<rparr>"

definition handleStart :: "CounterTimer_props \<Rightarrow> CounterTimer \<Rightarrow> CounterTimer" where
  "handleStart p c =
     (if state c = idle \<or> state c = completed then
        withTiming 1 (validDuration p * 1000) (easing p) (c\<lparr>state := running, progress := 0\<rparr>)
      else if state c = paused then
        (let remainingProgress = 1 - progress c;
             remainingDuration = validDuration p * 1000 * remainingProgress
         in withTiming 1 remainingDuration (easing p) (c\<lparr>state := running\<rparr>))
      else c)"

definition handleStop :: "CounterTimer \<Rightarrow> CounterTimer" where
  "handleStop c = (if state c = running then cancelAnimation (c\<lparr>state := paused\<rparr>) else c)"

definition handleReset :: "CounterTimer \<Rightarrow> CounterTimer" where
  "handleReset c = (cancelAnimation (c\<lparr>state := idle\<rparr>))\<lparr>progress := 0, displayValue := ''0''\<rparr>"

definition handleRestart :: "CounterTimer_props \<Rightarrow> CounterTimer \<Rightarrow> CounterTimer" where
  "handleRestart p c =
     withTiming 1 (validDuration p * 1000) (easing p)
       ((cancelAnimation c)\<lparr>state := running, progress := 0\<rparr>)"

section \<open>The counter and its completion callback as events\<close>

text \<open>
  The callback given to \<open>withTiming\<close> is a worklet: it runs where the interpolation runs,
  with \<open>finished = true\<close> when the interpolation reaches its target and \<open>finished = false\<close>
  when it is canceled or replaced. On \<open>finished\<close> it hands \<open>setState('completed')\<close> and
  \<open>onComplete()\<close> to the JavaScript thread through \<open>runOnJS\<close>, which runs them later, after
  whatever that thread already has to do. So reaching 1 and the notification are two events:
  \<open>reachesOne\<close> queues a notification, \<open>deliver\<close> runs the oldest one queued. The button
  handlers are events of the JavaScript thread.
\<close>

datatype TimerEvent = start | stop | reset | restart | reachesOne | deliver

record TimerSystem =
  timer :: CounterTimer
  pending :: nat
  notified :: nat

definition TimerSystem_mount :: TimerSystem where
  "TimerSystem_mount = \<lparr>timer = CounterTimer_mount, pending = 0, notified = 0\<rparr>"

fun step :: "CounterTimer_props \<Rightarrow> TimerSystem \<Rightarrow> TimerEvent \<Rightarrow> TimerSystem" where
  "step p s start = s\<lparr>timer := handleStart p (timer s)\<rparr>"
| "step p s stop = s\<lparr>timer := handleStop (timer s)\<rparr>"
| "step p s reset = s\<lparr>timer := handleReset (timer s)\<rparr>"
| "step p s restart = s\<lparr>timer := handleRestart p (timer s)\<rparr>"
| "step p s reachesOne =
     (case animation (timer s) of
        None \<Rightarrow> s
      | Some a \<Rightarrow>
          s\<lparr>timer := (timer s)\<lparr>progress := toValue a, animation := None\<rparr>,
            pending := pending s + 1\<rparr>)"
| "step p s deliver =
     (if pending s = 0 then s
      else s\<lparr>timer := (timer s)\<lparr>state := completed\<rparr>,
             pending := pending s - 1, notified := notified s + 1\<rparr>)"

fun run :: "CounterTimer_props \<Rightarrow> TimerSystem \<Rightarrow> TimerEvent list \<Rightarrow> TimerSystem" where
  "run p s [] = s"
| "run p s (e # es) = run p (step p s e) es"










text \<open>A counter to 100 over ten seconds, linear.\<close>

definition ten_seconds :: CounterTimer_props where
  "ten_seconds = \<lparr>targetNumber = 100, durationSec = 10, easing = linear\<rparr>"

section \<open>The date field as the specification words it\<close>

text \<open>
  A calendar date: a month from 0 to 11, a day of that month, no time of day, within the
  range of time values.
\<close>

definition valid_calendar_date :: "Date \<Rightarrow> bool" where
  "valid_calendar_date d =
     (0 \<le> getMonth d \<and> getMonth d \<le> 11
      \<and> 1 \<le> getDate d \<and> getDate d \<le> daysInMonth (getFullYear d) (getMonth d)
      \<and> in_time_range (getFullYear d) (getMonth d) (getDate d)
      \<and> timeOfDay d = 0)"

text \<open>The separator of a format, and the order in which it lays out year, month and day.\<close>

fun separator :: "DateFormat \<Rightarrow> char" where
  "separator DD_MM_YYYY = CHR ''/''"
| "separator MM_DD_YYYY = CHR ''/''"
| "separator YYYY_MM_DD = CHR ''-''"

fun layout :: "DateFormat \<Rightarrow> 'a \<Rightarrow> 'a \<Rightarrow> 'a \<Rightarrow> 'a list" where
  "layout DD_MM_YYYY year month day = [day, month, year]"
| "layout MM_DD_YYYY year month day = [month, day, year]"
| "layout YYYY_MM_DD year month day = [year, month, day]"

text \<open>
  The four checks of the date field, each giving its message when it fails, and the rule
  that the first failing check of a list is the one reported.
\<close>

definition required_check :: "CalendarPicker_props \<Rightarrow> string \<Rightarrow> string option" where
  "required_check p text =
     (if required p \<and> trim text = [] then Some ''Date is required'' else None)"

definition format_check :: "CalendarPicker_props \<Rightarrow> string \<Rightarrow> string option" where
  "format_check p text =
     (if parseDate (format p) text = None
      then Some (''Invalid date format. Use '' @ format_name (format p)) else None)"

definition min_check :: "CalendarPicker_props \<Rightarrow> string \<Rightarrow> string option" where
  "min_check p text =
     (case minDate p of
        None \<Rightarrow> None
      | Some lo \<Rightarrow>
          (case parseDate (format p) text of
             None \<Rightarrow> None
           | Some date \<Rightarrow>
               if Date_less date lo
               then Some (''Date must be after '' @ formatDate (format p) lo) else None))"

definition max_check :: "CalendarPicker_props \<Rightarrow> string \<Rightarrow> string option" where
  "max_check p text =
     (case maxDate p of
        None \<Rightarrow> None
      | Some hi \<Rightarrow>
          (case parseDate (format p) text of
             None \<Rightarrow> None
           | Some date \<Rightarrow>
               if Date_less hi date
               then Some (''Date must be before '' @ formatDate (format p) hi) else None))"

fun first_failure :: "string option list \<Rightarrow> string" where
  "first_failure [] = []"
| "first_failure (None # checks) = first_failure checks"
| "first_failure (Some msg # checks) = msg"

definition checks_in_order :: "CalendarPicker_props \<Rightarrow> string \<Rightarrow> string" where
  "checks_in_order p text =
     first_failure [required_check p text, format_check p text, min_check p text, max_check p text]"

text \<open>The bounds of the year 2025 in the format DD/MM/YYYY, required or not.\<close>

definition day_of :: "int \<Rightarrow> int \<Rightarrow> int \<Rightarrow> Date" where
  "day_of y m d = \<lparr>getFullYear = y, getMonth = m, getDate = d, timeOfDay = 0\<rparr>"

definition within_2025 :: "bool \<Rightarrow> CalendarPicker_props" where
  "within_2025 req =
     \<lparr>format = DD_MM_YYYY, minDate = Some (day_of 2025 0 1), maxDate = Some (day_of 2025 11 31),
      required = req\<rparr>"

section \<open>Example inputs\<close>

text \<open>
  The props a \<open>FilePicker\<close> has when none is given (at most 3 files, 5 MB each, 15 MB in
  all, every type allowed), with a plain byte count standing for the size text, and four
  small PDF assets as a document picker returns them.
\<close>

definition bytes_text :: "nat \<Rightarrow> string" where
  "bytes_text n = String (int n) @ '' Bytes''"

definition FilePicker_defaults :: FilePicker_props where
  "FilePicker_defaults =
     \<lparr>maxFiles = 3, maxSizePerFile = 5 * 1024 * 1024, maxTotalSize = 15 * 1024 * 1024,
      allowedTypes = [''*/*''], required_files = False, formatFileSize = bytes_text\<rparr>"

definition pdf_asset :: "string \<Rightarrow> Asset" where
  "pdf_asset n =
     \<lparr>asset_uri = ''file:///cache/'' @ n, asset_name = n, asset_size = Some 1024,
      asset_mimeType = Some ''application/pdf''\<rparr>"

definition pdf_file :: "string \<Rightarrow> SelectedFile" where
  "pdf_file n =
     \<lparr>uri = ''file:///cache/'' @ n, name = n, file_size = 1024,
      mimeType = Some ''application/pdf''\<rparr>"

definition four_assets :: "Asset list" where
  "four_assets = [pdf_asset ''a.pdf'', pdf_asset ''b.pdf'', pdf_asset ''c.pdf'', pdf_asset ''d.pdf'']"

definition picked :: "Asset list \<Rightarrow> PickerResult" where
  "picked as = \<lparr>canceled = False, assets = Some as\<rparr>"

section \<open>Properties of the validation engine\<close>

text \<open>
  The email test accepts exactly the strings \<open>a@b.c\<close> with \<open>a\<close>, \<open>b\<close>, \<open>c\<close> non-empty and free
  of white space and \<open>@\<close>, which is what the regular expression of the source matches.
\<close>

lemma dotted_length: "b \<noteq> [] \<Longrightarrow> c \<noteq> [] \<Longrightarrow> d = b @ x # c \<Longrightarrow> 3 \<le> length d"
  by (cases b; cases c) simp_all

lemma no_dot_short:
  "length d < 3 \<Longrightarrow> \<not> (\<exists>b c. b \<noteq> [] \<and> c \<noteq> [] \<and> d = b @ CHR ''.'' # c)"
proof
  assume short: "length d < 3"
  assume "\<exists>b c. b \<noteq> [] \<and> c \<noteq> [] \<and> d = b @ CHR ''.'' # c"
  then obtain b c where "b \<noteq> []" "c \<noteq> []" "d = b @ CHR ''.'' # c" by blast
  from dotted_length [OF this] short show False by simp
qed

lemma dot_inside_iff:
  "dot_inside d \<longleftrightarrow> (\<exists>b c. b \<noteq> [] \<and> c \<noteq> [] \<and> d = b @ CHR ''.'' # c)"
proof (induction d rule: dot_inside.induct)
  case (1 x y z zs)
  show ?case
  proof
    assume "dot_inside (x # y # z # zs)"
    then consider "y = CHR ''.''" | "dot_inside (y # z # zs)" by auto
    then show "\<exists>b c. b \<noteq> [] \<and> c \<noteq> [] \<and> x # y # z # zs = b @ CHR ''.'' # c"
    proof cases
      case 1
      then have "x # y # z # zs = [x] @ CHR ''.'' # (z # zs)" by simp
      then show ?thesis by blast
    next
      case 2
      with "1.IH" obtain b c where "b \<noteq> []" "c \<noteq> []" "y # z # zs = b @ CHR ''.'' # c"
        by blast
      then have "x # b \<noteq> [] \<and> c \<noteq> [] \<and> x # y # z # zs = (x # b) @ CHR ''.'' # c" by simp
      then show ?thesis by blast
    qed
  next
    assume "\<exists>b c. b \<noteq> [] \<and> c \<noteq> [] \<and> x # y # z # zs = b @ CHR ''.'' # c"
    then obtain b c where bc: "b \<noteq> []" "c \<noteq> []" "x # y # z # zs = b @ CHR ''.'' # c"
      by blast
    from bc(1) obtain b0 bs where b: "b = b0 # bs" by (cases b) auto
    show "dot_inside (x # y # z # zs)"
    proof (cases bs)
      case Nil
      with bc(3) b have "y = CHR ''.''" by simp
      then show ?thesis by simp
    next
      case (Cons b1 bs')
      with bc b have "bs \<noteq> [] \<and> c \<noteq> [] \<and> y # z # zs = bs @ CHR ''.'' # c" by simp
      with "1.IH" have "dot_inside (y # z # zs)" by blast
      then show ?thesis by simp
    qed
  qed
next
  show "dot_inside [] \<longleftrightarrow> (\<exists>b c. b \<noteq> [] \<and> c \<noteq> [] \<and> [] = b @ CHR ''.'' # c)"
    using no_dot_short [of "[]"] by simp
next
  fix v
  show "dot_inside [v] \<longleftrightarrow> (\<exists>b c. b \<noteq> [] \<and> c \<noteq> [] \<and> [v] = b @ CHR ''.'' # c)"
    using no_dot_short [of "[v]"] by simp
next
  fix v w
  show "dot_inside [v, w] \<longleftrightarrow> (\<exists>b c. b \<noteq> [] \<and> c \<noteq> [] \<and> [v, w] = b @ CHR ''.'' # c)"
    using no_dot_short [of "[v, w]"] by simp
qed

lemma not_plain_at: "\<not> plain CHR ''@''"
  by (simp add: plain_def)

lemma emailRegex_test_iff:
  "emailRegex_test s \<longleftrightarrow>
     (\<exists>a b c. a \<noteq> [] \<and> b \<noteq> [] \<and> c \<noteq> []
        \<and> list_all plain a \<and> list_all plain b \<and> list_all plain c
        \<and> s = a @ ''@'' @ b @ ''.'' @ c)"
proof
  assume t: "emailRegex_test s"
  define a where "a = takeWhile plain s"
  define r where "r = dropWhile plain s"
  have s: "s = a @ r" by (simp add: a_def r_def)
  from t have a: "a \<noteq> []" and r: "r \<noteq> []" and h: "hd r = CHR ''@''"
    and p: "list_all plain (tl r)" and d: "dot_inside (tl r)"
    by (simp_all add: emailRegex_test_def a_def r_def Let_def)
  from d obtain b c where bc: "b \<noteq> []" "c \<noteq> []" "tl r = b @ CHR ''.'' # c"
    by (auto simp: dot_inside_iff)
  from r h have "r = CHR ''@'' # tl r" by (cases r) auto
  with bc(3) s have "s = a @ ''@'' @ b @ ''.'' @ c" by simp
  moreover have "list_all plain a" by (simp add: a_def list_all_iff) (meson set_takeWhileD)
  moreover from p bc(3) have "list_all plain b" "list_all plain c" by simp_all
  ultimately show "\<exists>a b c. a \<noteq> [] \<and> b \<noteq> [] \<and> c \<noteq> []
        \<and> list_all plain a \<and> list_all plain b \<and> list_all plain c
        \<and> s = a @ ''@'' @ b @ ''.'' @ c"
    using a bc(1,2) by blast
next
  assume "\<exists>a b c. a \<noteq> [] \<and> b \<noteq> [] \<and> c \<noteq> []
        \<and> list_all plain a \<and> list_all plain b \<and> list_all plain c
        \<and> s = a @ ''@'' @ b @ ''.'' @ c"
  then obtain a b c where ne: "a \<noteq> []" "b \<noteq> []" "c \<noteq> []"
    and pl: "list_all plain a" "list_all plain b" "list_all plain c"
    and s: "s = a @ CHR ''@'' # (b @ CHR ''.'' # c)" by auto
  have pa: "\<forall>x\<in>set a. plain x" using pl(1) by (simp add: list_all_iff)
  have tw: "takeWhile plain s = a"
    unfolding s using pa not_plain_at by (simp add: takeWhile_tail)
  have dw: "dropWhile plain s = CHR ''@'' # (b @ CHR ''.'' # c)"
    unfolding s using pa not_plain_at by (simp add: dropWhile_append3)
  have dot: "plain CHR ''.''" by (simp add: plain_def isWhiteSpace_def)
  have di: "dot_inside (b @ CHR ''.'' # c)"
    using ne(2,3) by (auto simp: dot_inside_iff)
  show "emailRegex_test s"
    using ne(1) pl(2,3) dot di by (simp add: emailRegex_test_def tw dw)
qed

lemma check_rule_well_formed:
  "well_formed r \<Longrightarrow>
   check_rule v r acc = Inr (if rule_fails v r then acc @ [message r] else acc)"
  by (cases "rtype r"; cases "rvalue r"; cases "validator r")
     (simp_all add: check_rule_def rule_fails_def well_formed_def)

lemma forEach_rule_collects:
  "list_all well_formed R \<Longrightarrow>
   forEach_rule R v acc = Inr (acc @ map message (filter (rule_fails v) R))"
proof (induction R arbitrary: acc)
  case Nil
  show ?case by simp
next
  case (Cons r R)
  from Cons.prems have wf: "well_formed r" and rest: "list_all well_formed R" by simp_all
  show ?case
    by (simp add: check_rule_well_formed [OF wf] Cons.IH [OF rest])
qed

text \<open>
  Claim C2. For every sequence \<open>R\<close> of well-formed rules and every string \<open>v\<close>, \<open>validate\<close>
  returns the messages of exactly the rules of \<open>R\<close> that fail on \<open>v\<close>, each rule checked
  whatever the earlier ones gave, in the order of \<open>R\<close>; the result is empty if and only if
  no rule of \<open>R\<close> fails on \<open>v\<close>.
\<close>

theorem validate_collects_failures:
  assumes "list_all well_formed R"
  shows "validate R v = Inr (map message (filter (rule_fails v) R))
       \<and> (validate R v = Inr [] \<longleftrightarrow> list_all (\<lambda>r. \<not> rule_fails v r) R)"
proof -
  have eq: "validate R v = Inr (map message (filter (rule_fails v) R))"
    using assms by (simp add: validate_def forEach_rule_collects)
  have "filter (rule_fails v) R = [] \<longleftrightarrow> list_all (\<lambda>r. \<not> rule_fails v r) R"
    by (simp add: filter_empty_conv list_all_iff)
  with eq show ?thesis by simp
qed

theorem validate_collects_failures_witness:
  "list_all well_formed
     [\<lparr>rtype = Required, rvalue = Undefined, message = ''Required'', validator = None\<rparr>,
      \<lparr>rtype = MinLength, rvalue = Num 2, message = ''Too short'', validator = None\<rparr>,
      \<lparr>rtype = Email, rvalue = Undefined, message = ''Bad email'', validator = None\<rparr>]
   \<and> validate
     [\<lparr>rtype = Required, rvalue = Undefined, message = ''Required'', validator = None\<rparr>,
      \<lparr>rtype = MinLength, rvalue = Num 2, message = ''Too short'', validator = None\<rparr>,
      \<lparr>rtype = Email, rvalue = Undefined, message = ''Bad email'', validator = None\<rparr>] ''a''
     = Inr [''Too short'', ''Bad email'']"
proof -
  let ?R = "[\<lparr>rtype = Required, rvalue = Undefined, message = ''Required'', validator = None\<rparr>,
      \<lparr>rtype = MinLength, rvalue = Num 2, message = ''Too short'', validator = None\<rparr>,
      \<lparr>rtype = Email, rvalue = Undefined, message = ''Bad email'', validator = None\<rparr>]"
  have wf: "list_all well_formed ?R"
    by (simp add: well_formed_def)
  have fails: "map message (filter (rule_fails ''a'') ?R) = [''Too short'', ''Bad email'']"
    by (simp add: rule_fails_def trim_def isWhiteSpace_def emailRegex_test_def plain_def)
  from validate_collects_failures [OF wf, of "''a''"] fails wf
  show ?thesis by simp
qed

section \<open>Properties of the text field\<close>

lemma validate_required_only:
  "validate [\<lparr>rtype = Required, rvalue = Undefined, message = m, validator = None\<rparr>] v
     = Inr (if trim v = [] then [m] else [])"
  by (simp add: validate_def check_rule_def)

lemma handleChangeText_untouched:
  "\<not> isTouched s \<Longrightarrow>
   \<exists>s'. handleChangeText p s text = Inr (s', [OnChangeText text])
        \<and> \<not> isTouched s' \<and> \<not> hasError s'"
  by (simp add: handleChangeText_def hasError_def Let_def)

lemma handleFocus_untouched: "\<not> isTouched s \<Longrightarrow> \<not> isTouched (handleFocus s)"
  by (simp add: handleFocus_def)

text \<open>
  Claim C8. A text field whose value is empty and whose only rule is \<open>required\<close> with message
  \<open>m\<close> shows no error while it is untouched; its blur handler then returns a state with
  \<open>hasError\<close> in which the messages shown are exactly \<open>m\<close>. In every state \<open>t\<close> of every field
  \<open>q\<close>, \<open>hasError\<close> is \<open>touched\<close> and \<open>errors\<close> non-empty, and \<open>isSuccess\<close> is \<open>touched\<close>, \<open>errors\<close>
  empty and the trimmed value non-empty.
\<close>

theorem textfield_required_blur:
  assumes rules: "validators p =
      [\<lparr>rtype = Required, rvalue = Undefined, message = m, validator = None\<rparr>]"
    and empty: "current_value p s = []"
    and untouched: "\<not> isTouched s"
  shows "\<not> hasError s
       \<and> (\<exists>s'. handleBlur p s = Inr (s', [OnValidate False])
               \<and> hasError s' \<and> shownMessages s' = [m])
       \<and> (hasError t \<longleftrightarrow> isTouched t \<and> errors t \<noteq> [])
       \<and> (isSuccess q t \<longleftrightarrow> isTouched t \<and> errors t = [] \<and> trim (current_value q t) \<noteq> [])"
proof -
  have a: "\<not> hasError s" using untouched by (simp add: hasError_def)
  have v: "validate (validators p) (current_value p s) = Inr [m]"
    by (simp add: rules empty validate_required_only trim_def)
  have b: "\<exists>s'. handleBlur p s = Inr (s', [OnValidate False])
                \<and> hasError s' \<and> shownMessages s' = [m]"
    by (simp add: handleBlur_def v hasError_def shownMessages_def)
  have c: "hasError t \<longleftrightarrow> isTouched t \<and> errors t \<noteq> []"
    by (simp add: hasError_def)
  have d: "isSuccess q t \<longleftrightarrow> isTouched t \<and> errors t = [] \<and> trim (current_value q t) \<noteq> []"
    by (simp add: isSuccess_def)
  from a b c d show ?thesis by blast
qed

theorem textfield_required_blur_witness:
  "\<not> hasError TextInput_mount
   \<and> (\<exists>s'. handleBlur \<lparr>validators = [\<lparr>rtype = Required, rvalue = Undefined,
                                         message = ''Name is required'', validator = None\<rparr>],
                         externalValue = None\<rparr> TextInput_mount = Inr (s', [OnValidate False])
           \<and> hasError s' \<and> shownMessages s' = [''Name is required''])"
proof -
  let ?p = "\<lparr>validators = [\<lparr>rtype = Required, rvalue = Undefined,
                                message = ''Name is required'', validator = None\<rparr>],
                externalValue = None\<rparr>"
  have h1: "validators ?p = [\<lparr>rtype = Required, rvalue = Undefined,
                               message = ''Name is required'', validator = None\<rparr>]"
    by simp
  have h2: "current_value ?p TextInput_mount = []"
    by (simp add: current_value_def TextInput_mount_def)
  have h3: "\<not> isTouched TextInput_mount"
    by (simp add: TextInput_mount_def)
  from textfield_required_blur [OF h1 h2 h3, where t = TextInput_mount and q = ?p]
  show ?thesis by blast
qed

section \<open>Properties of the Date constructor\<close>

text \<open>
  The constructor returns a normal calendar date, and returns the fields it was given exactly
  when they already are one: a day that does not move leaves month and year alone.
\<close>

lemma daysInMonth_bounds: "28 \<le> daysInMonth y m \<and> daysInMonth y m \<le> 31"
  by (simp add: daysInMonth_def)

lemma roll_date_back0:
  "d < 1 \<Longrightarrow> roll_date y 0 d = roll_date (y - 1) 11 (d + 31)"
  by (subst roll_date.simps) simp

lemma roll_date_back:
  "d < 1 \<Longrightarrow> m \<noteq> 0 \<Longrightarrow> roll_date y m d = roll_date y (m - 1) (d + daysInMonth y (m - 1))"
  by (subst roll_date.simps) simp

lemma roll_date_fwd11:
  "\<not> d < 1 \<Longrightarrow> daysInMonth y 11 < d \<Longrightarrow> roll_date y 11 d = roll_date (y + 1) 0 (d - 31)"
  by (subst roll_date.simps) simp

lemma roll_date_fwd:
  "\<not> d < 1 \<Longrightarrow> daysInMonth y m < d \<Longrightarrow> m \<noteq> 11 \<Longrightarrow>
   roll_date y m d = roll_date y (m + 1) (d - daysInMonth y m)"
  by (subst roll_date.simps) simp

lemma roll_date_id:
  "1 \<le> d \<Longrightarrow> d \<le> daysInMonth y m \<Longrightarrow> roll_date y m d = (y, m, d)"
  by (subst roll_date.simps) simp

lemma roll_date_normal:
  "0 \<le> m \<Longrightarrow> m \<le> 11 \<Longrightarrow> roll_date y m d = (y', m', d') \<Longrightarrow>
   0 \<le> m' \<and> m' \<le> 11 \<and> 1 \<le> d' \<and> d' \<le> daysInMonth y' m'"
proof (induction y m d rule: roll_date.induct)
  case (1 y m d)
  show ?case
  proof (cases "d < 1")
    case lt: True
    show ?thesis
    proof (cases "m = 0")
      case True
      have "roll_date y m d = roll_date (y - 1) 11 (d + 31)"
        unfolding True using lt by (rule roll_date_back0)
      with "1.prems"(3) have r: "roll_date (y - 1) 11 (d + 31) = (y', m', d')" by simp
      show ?thesis by (rule "1.IH"(1) [OF lt True _ _ r]) simp_all
    next
      case False
      have "roll_date y m d = roll_date y (m - 1) (d + daysInMonth y (m - 1))"
        using lt False by (rule roll_date_back)
      with "1.prems"(3)
      have r: "roll_date y (m - 1) (d + daysInMonth y (m - 1)) = (y', m', d')" by simp
      have "0 \<le> m - 1" "m - 1 \<le> 11" using "1.prems"(1,2) False by simp_all
      then show ?thesis using r by (rule "1.IH"(2) [OF lt False])
    qed
  next
    case nlt: False
    show ?thesis
    proof (cases "d > daysInMonth y m")
      case gt: True
      show ?thesis
      proof (cases "m = 11")
        case True
        have dim: "daysInMonth y m = 31" using True by (simp add: daysInMonth_def)
        have "roll_date y m d = roll_date (y + 1) 0 (d - 31)"
          unfolding True using nlt gt [unfolded True] by (rule roll_date_fwd11)
        with "1.prems"(3) have r: "roll_date (y + 1) 0 (d - 31) = (y', m', d')" by simp
        show ?thesis by (rule "1.IH"(3) [OF nlt gt True _ _ r]) simp_all
      next
        case False
        have "roll_date y m d = roll_date y (m + 1) (d - daysInMonth y m)"
          using nlt gt False by (rule roll_date_fwd)
        with "1.prems"(3)
        have r: "roll_date y (m + 1) (d - daysInMonth y m) = (y', m', d')" by simp
        have "0 \<le> m + 1" "m + 1 \<le> 11" using "1.prems"(1,2) False by simp_all
        then show ?thesis using r by (rule "1.IH"(4) [OF nlt gt False])
      qed
    next
      case False
      with nlt have "roll_date y m d = (y, m, d)" by (simp add: roll_date_id)
      with "1.prems" nlt False show ?thesis by simp
    qed
  qed
qed

lemma roll_date_forward:
  "1 \<le> d \<Longrightarrow> roll_date y m d = (y', m', d') \<Longrightarrow>
   d' \<le> d \<and> (d' = d \<longrightarrow> y' = y \<and> m' = m)"
proof (induction y m d rule: roll_date.induct)
  case (1 y m d)
  from "1.prems" have nlt: "\<not> d < 1" by simp
  show ?case
  proof (cases "d > daysInMonth y m")
    case gt: True
    have db: "28 \<le> daysInMonth y m" using daysInMonth_bounds by simp
    show ?thesis
    proof (cases "m = 11")
      case True
      have dim: "daysInMonth y m = 31" using True by (simp add: daysInMonth_def)
      have "roll_date y m d = roll_date (y + 1) 0 (d - 31)"
        unfolding True using nlt gt [unfolded True] by (rule roll_date_fwd11)
      with "1.prems"(2) have r: "roll_date (y + 1) 0 (d - 31) = (y', m', d')" by simp
      have "1 \<le> d - 31" using gt dim by simp
      from "1.IH"(3) [OF nlt gt True this r]
      show ?thesis by simp
    next
      case False
      have "roll_date y m d = roll_date y (m + 1) (d - daysInMonth y m)"
        using nlt gt False by (rule roll_date_fwd)
      with "1.prems"(2)
      have r: "roll_date y (m + 1) (d - daysInMonth y m) = (y', m', d')" by simp
      have "1 \<le> d - daysInMonth y m" using gt by simp
      from "1.IH"(4) [OF nlt gt False this r] db
      show ?thesis by simp
    qed
  next
    case False
    with nlt have "roll_date y m d = (y, m, d)" by (simp add: roll_date_id)
    with "1.prems" show ?thesis by simp
  qed
qed

lemma roll_date_fixed_day:
  assumes "0 \<le> m" "m \<le> 11" "roll_date y m d = (y', m', d)"
  shows "y' = y \<and> m' = m \<and> 1 \<le> d \<and> d \<le> daysInMonth y m"
proof -
  from roll_date_normal [OF assms] have n: "1 \<le> d" "d \<le> daysInMonth y' m'" by simp_all
  from roll_date_forward [OF n(1) assms(3)] have "y' = y" "m' = m" by simp_all
  with n show ?thesis by simp
qed

lemma checked_Date_Some_iff:
  "checked_Date (Some y) (Some m) (Some d) = Some date \<longleftrightarrow>
   date = day_of y m d \<and> valid_calendar_date date \<and> \<not> (0 \<le> y \<and> y \<le> 99)"
proof
  assume c: "checked_Date (Some y) (Some m) (Some d) = Some date"
  define yr where "yr = (if 0 \<le> y \<and> y \<le> 99 then 1900 + y else y)"
  obtain y' m' d' where r: "roll_date (yr + m div 12) (m mod 12) d = (y', m', d')"
    by (cases "roll_date (yr + m div 12) (m mod 12) d") auto
  from c r have nd: "new_Date (Some y) (Some m) (Some d) = Some date"
    and f: "getDate date = d" "getMonth date = m" "getFullYear date = y"
    by (auto simp: checked_Date_def split: option.splits if_splits)
  from nd r have dt: "date = day_of y' m' d'" and rng: "in_time_range y' m' d'"
    by (auto simp: new_Date_def yr_def day_of_def Let_def split: if_splits)
  from dt f have eq: "d' = d" "m' = m" "y' = y" by (simp_all add: day_of_def)
  have mm: "0 \<le> m mod 12" "m mod 12 \<le> 11" by simp_all
  from roll_date_fixed_day [OF mm r [unfolded eq(1)]]
  have k0: "y' = yr + m div 12" "m' = m mod 12" "1 \<le> d" "d \<le> daysInMonth (yr + m div 12) (m mod 12)"
    by blast+
  have k2: "m mod 12 = m" using k0(2) eq(2) by (rule trans [OF sym])
  have k1: "yr + m div 12 = y" using k0(1) eq(3) by (rule trans [OF sym])
  have mr: "0 \<le> m" "m \<le> 11" using mm unfolding k2 by blast+
  then have md0: "m div 12 = 0" by simp
  have yy: "yr = y" using k1 unfolding md0 by simp
  have ny: "\<not> (0 \<le> y \<and> y \<le> 99)"
  proof
    assume "0 \<le> y \<and> y \<le> 99"
    then have "yr = 1900 + y" by (simp add: yr_def)
    with yy show False by simp
  qed
  have dd: "d \<le> daysInMonth y m" using k0(4) unfolding k1 k2 .
  show "date = day_of y m d \<and> valid_calendar_date date \<and> \<not> (0 \<le> y \<and> y \<le> 99)"
    using dt eq mr k0(3) dd rng ny by (simp add: valid_calendar_date_def day_of_def)
next
  assume a: "date = day_of y m d \<and> valid_calendar_date date \<and> \<not> (0 \<le> y \<and> y \<le> 99)"
  then have dt: "date = day_of y m d" and vd: "valid_calendar_date (day_of y m d)"
    and ny: "\<not> (0 \<le> y \<and> y \<le> 99)"
    by blast+
  from vd have v: "0 \<le> m" "m \<le> 11" "1 \<le> d" "d \<le> daysInMonth y m" "in_time_range y m d"
    unfolding valid_calendar_date_def day_of_def by simp_all
  from v(1,2) have md: "m div 12 = 0" "m mod 12 = m" by simp_all
  have r: "roll_date y m d = (y, m, d)" using v(3,4) by (rule roll_date_id)
  have yr: "(if 0 \<le> y \<and> y \<le> 99 then 1900 + y else y) = y" using ny by simp
  have "new_Date (Some y) (Some m) (Some d) = Some (day_of y m d)"
    using v(5) by (simp add: new_Date_def yr md r day_of_def)
  then show "checked_Date (Some y) (Some m) (Some d) = Some date"
    unfolding dt by (simp add: checked_Date_def day_of_def)
qed

lemma checked_Date_NaN:
  "y = None \<or> m = None \<or> d = None \<Longrightarrow> checked_Date y m d = None"
  by (cases y; cases m; cases d) (simp_all add: checked_Date_def new_Date_def)

section \<open>Properties of the string functions\<close>

lemma place_of_None: "place_of c xs = None \<longleftrightarrow> c \<notin> set xs"
  by (induction xs) auto

lemma isDigit_iff: "isDigit c \<longleftrightarrow> c \<in> set decimal_digits"
  by (simp add: isDigit_def digit_val_def place_of_None)

lemma isDigit_plain:
  "isDigit c \<Longrightarrow> \<not> isWhiteSpace c \<and> c \<noteq> CHR ''-'' \<and> c \<noteq> CHR ''+'' \<and> c \<noteq> CHR ''/''"
  by (auto simp: isDigit_iff decimal_digits_def isWhiteSpace_def)

lemma below_ten: "(k::nat) < 10 \<Longrightarrow> k \<in> {0, 1, 2, 3, 4, 5, 6, 7, 8, 9}"
  by auto

lemma digit_val_digit_char: "k < 10 \<Longrightarrow> digit_val (digit_char k) = Some k"
  using below_ten [of k] by (auto simp: digit_val_def digit_char_def decimal_digits_def)

lemma isDigit_digit_char: "k < 10 \<Longrightarrow> isDigit (digit_char k)"
  by (simp add: isDigit_def digit_val_digit_char)

lemma value_of_digits_snoc:
  "value_of_digits (ds @ [c]) = 10 * value_of_digits ds + the (digit_val c)"
  by (simp add: value_of_digits_def)

lemma digits_of_nat_digits: "list_all isDigit (digits_of_nat n)"
proof (induction n rule: digits_of_nat.induct)
  case (1 n)
  show ?case
  proof (cases "n < 10")
    case True
    then show ?thesis by (subst digits_of_nat.simps) (simp add: isDigit_digit_char)
  next
    case False
    with "1.IH" show ?thesis by (subst digits_of_nat.simps) (simp add: isDigit_digit_char)
  qed
qed

lemma digits_of_nat_nonempty: "digits_of_nat n \<noteq> []"
  by (subst digits_of_nat.simps) simp

lemma value_of_digits_of_nat: "value_of_digits (digits_of_nat n) = n"
proof (induction n rule: digits_of_nat.induct)
  case (1 n)
  show ?case
  proof (cases "n < 10")
    case True
    then show ?thesis
      by (subst digits_of_nat.simps) (simp add: value_of_digits_def digit_val_digit_char)
  next
    case False
    with "1.IH" show ?thesis
      by (subst digits_of_nat.simps) (simp add: value_of_digits_snoc digit_val_digit_char)
  qed
qed

lemma parseInt_digits:
  assumes "ds \<noteq> []" and "list_all isDigit ds"
  shows "parseInt ds = Some (int (value_of_digits ds))"
proof -
  obtain c cs where ds: "ds = c # cs" using assms(1) by (cases ds) auto
  with assms(2) have c: "isDigit c" by simp
  from isDigit_plain [OF c] have p: "\<not> isWhiteSpace c" "c \<noteq> CHR ''-''" "c \<noteq> CHR ''+''"
    by simp_all
  have tw: "takeWhile isDigit ds = ds" using assms(2) by (simp add: list_all_iff)
  have dw: "dropWhile isWhiteSpace ds = ds" using p(1) by (simp add: ds)
  show ?thesis
    unfolding parseInt_def dw using p(2,3) tw assms(1) by (simp add: ds Let_def)
qed

lemma parseInt_minus_digits:
  assumes "ds \<noteq> []" and "list_all isDigit ds"
  shows "parseInt (CHR ''-'' # ds) = Some (- int (value_of_digits ds))"
proof -
  have tw: "takeWhile isDigit ds = ds" using assms(2) by (simp add: list_all_iff)
  have ws: "\<not> isWhiteSpace CHR ''-''" by (simp add: isWhiteSpace_def)
  show ?thesis
    unfolding parseInt_def using assms(1) ws by (simp add: Let_def tw)
qed

lemma parseInt_String: "parseInt (String n) = Some n"
proof (cases "n < 0")
  case True
  then show ?thesis
    by (simp add: String_def parseInt_minus_digits digits_of_nat_nonempty digits_of_nat_digits
        value_of_digits_of_nat)
next
  case False
  then show ?thesis
    by (simp add: String_def parseInt_digits digits_of_nat_nonempty digits_of_nat_digits
        value_of_digits_of_nat)
qed

lemma value_of_digits_zero: "value_of_digits (CHR ''0'' # ds) = value_of_digits ds"
  by (simp add: value_of_digits_def digit_val_def decimal_digits_def)

lemma value_of_digits_pad: "value_of_digits (replicate k CHR ''0'' @ ds) = value_of_digits ds"
  by (induction k) (simp_all add: value_of_digits_zero)

lemma isDigit_zero: "isDigit CHR ''0''"
  by (simp add: isDigit_iff decimal_digits_def)

lemma parseInt_padStart2: "0 \<le> n \<Longrightarrow> parseInt (padStart2 (String n)) = Some n"
proof -
  assume n: "0 \<le> n"
  let ?ds = "digits_of_nat (nat n)"
  have s: "String n = ?ds" using n by (simp add: String_def)
  have d: "list_all isDigit (replicate (2 - length ?ds) CHR ''0'' @ ?ds)"
    using digits_of_nat_digits [of "nat n"] by (auto simp: list_all_iff isDigit_zero)
  have ne: "replicate (2 - length ?ds) CHR ''0'' @ ?ds \<noteq> []"
    by (simp add: digits_of_nat_nonempty)
  from parseInt_digits [OF ne d] n show ?thesis
    by (simp add: padStart2_def s value_of_digits_pad value_of_digits_of_nat)
qed

lemma digits_of_nat_no_sep:
  "CHR ''/'' \<notin> set (digits_of_nat n) \<and> CHR ''-'' \<notin> set (digits_of_nat n)"
  using digits_of_nat_digits [of n] isDigit_plain by (auto simp: list_all_iff)

lemma String_no_slash: "CHR ''/'' \<notin> set (String n)"
  using digits_of_nat_no_sep by (simp add: String_def)

lemma String_no_dash: "0 \<le> n \<Longrightarrow> CHR ''-'' \<notin> set (String n)"
  using digits_of_nat_no_sep by (simp add: String_def)

lemma padStart2_no_slash: "CHR ''/'' \<notin> set (padStart2 (String n))"
  using String_no_slash by (auto simp: padStart2_def)

lemma padStart2_no_dash: "0 \<le> n \<Longrightarrow> CHR ''-'' \<notin> set (padStart2 (String n))"
  using String_no_dash by (auto simp: padStart2_def)

lemma split_no_sep: "sep \<notin> set a \<Longrightarrow> split sep a = [a]"
  by (induction a) auto

lemma split_append: "sep \<notin> set a \<Longrightarrow> split sep (a @ sep # rest) = a # split sep rest"
  by (induction a) auto

lemma split_three:
  "sep \<notin> set a \<Longrightarrow> sep \<notin> set b \<Longrightarrow> sep \<notin> set c \<Longrightarrow>
   split sep (a @ [sep] @ b @ [sep] @ c) = [a, b, c]"
  by (simp add: split_append split_no_sep)

lemma trim_empty_iff: "trim s = [] \<longleftrightarrow> list_all isWhiteSpace s"
proof
  assume "trim s = []"
  then have e: "dropWhile isWhiteSpace (rev (dropWhile isWhiteSpace s)) = []"
    by (simp add: trim_def)
  show "list_all isWhiteSpace s"
  proof (rule ccontr)
    assume "\<not> list_all isWhiteSpace s"
    then have ne: "dropWhile isWhiteSpace s \<noteq> []"
      by (simp add: list_all_iff dropWhile_eq_Nil_conv)
    then have "\<not> isWhiteSpace (hd (dropWhile isWhiteSpace s))"
      by (rule hd_dropWhile)
    moreover have "hd (dropWhile isWhiteSpace s) \<in> set (rev (dropWhile isWhiteSpace s))"
      using ne by simp
    ultimately have "dropWhile isWhiteSpace (rev (dropWhile isWhiteSpace s)) \<noteq> []"
      by (auto simp: dropWhile_eq_Nil_conv)
    with e show False by simp
  qed
next
  assume "list_all isWhiteSpace s"
  then have "\<forall>x\<in>set s. isWhiteSpace x" by (simp add: list_all_iff)
  then show "trim s = []" by (auto simp: trim_def dest: set_dropWhileD)
qed

lemma formatDate_not_blank: "trim (formatDate F d) \<noteq> []"
proof -
  have ne: "digits_of_nat k \<noteq> []" for k by (rule digits_of_nat_nonempty)
  have "\<exists>c \<in> set (String n). \<not> isWhiteSpace c" for n
  proof -
    obtain c where c: "c \<in> set (digits_of_nat (nat (if n < 0 then - n else n)))"
      using ne [of "nat (if n < 0 then - n else n)"] hd_in_set by blast
    then have "isDigit c" using digits_of_nat_digits by (auto simp: list_all_iff)
    then have "\<not> isWhiteSpace c" using isDigit_plain by blast
    with c show ?thesis by (auto simp: String_def split: if_splits)
  qed
  then obtain c where "c \<in> set (String (getFullYear d))" "\<not> isWhiteSpace c" by blast
  then have "\<not> list_all isWhiteSpace (formatDate F d)"
    by (cases F) (auto simp: formatDate_def Let_def list_all_iff)
  then show ?thesis by (simp add: trim_empty_iff)
qed

section \<open>Properties of the date field\<close>

lemma Date_at_midnight:
  "timeOfDay d = 0 \<Longrightarrow> d = day_of (getFullYear d) (getMonth d) (getDate d)"
  by (simp add: day_of_def)

lemma checked_Date_valid:
  assumes "valid_calendar_date d" and "\<not> (0 \<le> getFullYear d \<and> getFullYear d \<le> 99)"
  shows "checked_Date (Some (getFullYear d)) (Some (getMonth d)) (Some (getDate d)) = Some d"
proof -
  from assms(1) have "timeOfDay d = 0" by (simp add: valid_calendar_date_def)
  then have "d = day_of (getFullYear d) (getMonth d) (getDate d)" by (rule Date_at_midnight)
  with assms show ?thesis by (simp add: checked_Date_Some_iff)
qed

lemma parseDate_parts:
  assumes "trim s \<noteq> []" and "split (separator F) s = layout F ys ms ds"
  shows "parseDate F s = checked_Date (parseInt ys) (minus1 (parseInt ms)) (parseInt ds)"
  using assms by (cases F) (simp_all add: parseDate_def)

lemma formatDate_layout:
  "formatDate F d
   = (case layout F (String (getFullYear d)) (padStart2 (String (getMonth d + 1)))
                    (padStart2 (String (getDate d))) of
        [a, b, c] \<Rightarrow> a @ [separator F] @ b @ [separator F] @ c)"
  by (cases F) (simp_all add: formatDate_def)

text \<open>
  Claim C4, as amended. For every calendar date \<open>d\<close> whose year is not one of 0 to 99, and
  every format \<open>F\<close>, where a date before the year 0 is not written in YYYY-MM-DD, parsing the
  formatted date gives \<open>d\<close> back: \<open>parseDate F (formatDate F d) = Some d\<close>.
\<close>

theorem parse_format_roundtrip:
  assumes valid: "valid_calendar_date d"
    and year: "\<not> (0 \<le> getFullYear d \<and> getFullYear d \<le> 99)"
    and dash: "F = YYYY_MM_DD \<longrightarrow> 0 \<le> getFullYear d"
  shows "parseDate F (formatDate F d) = Some d"
proof -
  let ?ys = "String (getFullYear d)"
  let ?ms = "padStart2 (String (getMonth d + 1))"
  let ?ds = "padStart2 (String (getDate d))"
  from valid have m0: "0 \<le> getMonth d + 1" and d0: "0 \<le> getDate d"
    by (simp_all add: valid_calendar_date_def)
  have sp: "split (separator F) (formatDate F d) = layout F ?ys ?ms ?ds"
  proof (cases F)
    case DD_MM_YYYY
    then show ?thesis
      using split_three [of "CHR ''/''" ?ds ?ms ?ys]
      by (simp add: formatDate_def padStart2_no_slash String_no_slash)
  next
    case MM_DD_YYYY
    then show ?thesis
      using split_three [of "CHR ''/''" ?ms ?ds ?ys]
      by (simp add: formatDate_def padStart2_no_slash String_no_slash)
  next
    case YYYY_MM_DD
    with dash have "0 \<le> getFullYear d" by simp
    with YYYY_MM_DD m0 d0 show ?thesis
      using split_three [of "CHR ''-''" ?ys ?ms ?ds]
      by (simp add: formatDate_def padStart2_no_dash String_no_dash)
  qed
  have "parseDate F (formatDate F d)
      = checked_Date (parseInt ?ys) (minus1 (parseInt ?ms)) (parseInt ?ds)"
    using formatDate_not_blank sp by (rule parseDate_parts)
  also have "\<dots> = checked_Date (Some (getFullYear d)) (Some (getMonth d)) (Some (getDate d))"
    using m0 d0 by (simp add: parseInt_String parseInt_padStart2 minus1_def)
  also have "\<dots> = Some d" using valid year by (rule checked_Date_valid)
  finally show ?thesis .
qed

theorem parse_format_roundtrip_witness:
  "valid_calendar_date (day_of 2024 1 29)
   \<and> parseDate DD_MM_YYYY (formatDate DD_MM_YYYY (day_of 2024 1 29)) = Some (day_of 2024 1 29)
   \<and> parseDate MM_DD_YYYY (formatDate MM_DD_YYYY (day_of 2024 1 29)) = Some (day_of 2024 1 29)
   \<and> parseDate YYYY_MM_DD (formatDate YYYY_MM_DD (day_of 2024 1 29)) = Some (day_of 2024 1 29)"
proof -
  have v: "valid_calendar_date (day_of 2024 1 29)"
    by (simp add: valid_calendar_date_def day_of_def daysInMonth_def isLeapYear_def
        in_time_range_def)
  have y: "\<not> (0 \<le> getFullYear (day_of 2024 1 29) \<and> getFullYear (day_of 2024 1 29) \<le> 99)"
    by (simp add: day_of_def)
  have z: "F = YYYY_MM_DD \<longrightarrow> 0 \<le> getFullYear (day_of 2024 1 29)" for F
    by (simp add: day_of_def)
  from parse_format_roundtrip [OF v y z] v show ?thesis by simp
qed

text \<open>
  Claim C4 as stated fails. 1 January of the year 50 is written "01/01/50", which the
  constructor reads as 1950, so the year check of \<open>parseDate\<close> rejects it; 1 January of the
  year -5 is written "-5-01-01" in YYYY-MM-DD, which splits into four parts.
\<close>

theorem parse_format_roundtrip_counterexample:
  "valid_calendar_date (day_of 50 0 1)
   \<and> formatDate DD_MM_YYYY (day_of 50 0 1) = ''01/01/50''
   \<and> parseDate DD_MM_YYYY (formatDate DD_MM_YYYY (day_of 50 0 1)) = None
   \<and> valid_calendar_date (day_of (- 5) 0 1)
   \<and> formatDate YYYY_MM_DD (day_of (- 5) 0 1) = ''-5-01-01''
   \<and> parseDate YYYY_MM_DD (formatDate YYYY_MM_DD (day_of (- 5) 0 1)) = None"
  by code_simp

lemma layout_length: "length (layout F a b c) = 3"
  by (cases F) simp_all

lemma split_is_layout:
  assumes "length (split (separator F) s) = 3"
  shows "\<exists>ys ms ds. split (separator F) s = layout F ys ms ds"
proof -
  from assms obtain a b c where abc: "split (separator F) s = [a, b, c]"
    by (auto simp: length_Suc_conv numeral_3_eq_3)
  show ?thesis
  proof (cases F)
    case DD_MM_YYYY
    with abc have "split (separator F) s = layout F c b a" by simp
    then show ?thesis by blast
  next
    case MM_DD_YYYY
    with abc have "split (separator F) s = layout F c a b" by simp
    then show ?thesis by blast
  next
    case YYYY_MM_DD
    with abc have "split (separator F) s = layout F a b c" by simp
    then show ?thesis by blast
  qed
qed

lemma parseDate_wrong_count:
  "length (split (separator F) s) \<noteq> 3 \<Longrightarrow> parseDate F s = None"
  by (cases F) (simp_all add: parseDate_def)

lemma parseDate_blank: "trim s = [] \<Longrightarrow> parseDate F s = None"
  by (simp add: parseDate_def)

lemma checked_Date_Some_fields:
  assumes "checked_Date y m d = Some date"
  shows "y = Some (getFullYear date) \<and> m = Some (getMonth date) \<and> d = Some (getDate date)
       \<and> valid_calendar_date date \<and> \<not> (0 \<le> getFullYear date \<and> getFullYear date \<le> 99)"
proof -
  from assms checked_Date_NaN [of y m d] obtain yy mm dd
    where s: "y = Some yy" "m = Some mm" "d = Some dd"
    by (cases y; cases m; cases d) auto
  from assms [unfolded s checked_Date_Some_iff] s show ?thesis
    by (auto simp: day_of_def)
qed

lemma parseDate_NaN_component:
  assumes "split (separator F) s = layout F ys ms ds"
    and "parseInt ys = None \<or> parseInt ms = None \<or> parseInt ds = None"
  shows "parseDate F s = None"
proof (cases "trim s = []")
  case True
  then show ?thesis by (rule parseDate_blank)
next
  case False
  from assms(2) have "parseInt ys = None \<or> minus1 (parseInt ms) = None \<or> parseInt ds = None"
    by (auto simp: minus1_def)
  then have "checked_Date (parseInt ys) (minus1 (parseInt ms)) (parseInt ds) = None"
    by (rule checked_Date_NaN)
  with parseDate_parts [OF False assms(1)] show ?thesis by simp
qed

lemma minus1_Some: "minus1 x = Some k \<longleftrightarrow> x = Some (k + 1)"
  by (cases x) (auto simp: minus1_def)

text \<open>
  Claim C5, as amended. \<open>parseDate\<close> returns a date exactly when the text is not blank,
  splits on the separator into three components laid out as the format says, each component
  begins (after white space and a sign) with decimal digits, and the numbers read are the
  year, month and day of a calendar date whose year is not one of 0 to 99; the date returned
  has exactly those fields. In every other case it returns null: a wrong number of separators,
  a component without leading digits, a roll-over. What follows the leading digits of a
  component is ignored. In particular "31/02/2024" in DD/MM/YYYY gives null, where the
  constructor alone gives 2 March 2024.
\<close>

theorem parseDate_Some_iff:
  "(parseDate F s = Some date \<longleftrightarrow>
      trim s \<noteq> []
      \<and> (\<exists>ys ms ds. split (separator F) s = layout F ys ms ds
            \<and> parseInt ys = Some (getFullYear date)
            \<and> parseInt ms = Some (getMonth date + 1)
            \<and> parseInt ds = Some (getDate date))
      \<and> valid_calendar_date date
      \<and> \<not> (0 \<le> getFullYear date \<and> getFullYear date \<le> 99))
   \<and> parseDate DD_MM_YYYY ''31/02/2024'' = None
   \<and> new_Date (Some 2024) (Some 1) (Some 31) = Some (day_of 2024 2 2)"
proof (intro conjI iffI)
  assume p: "parseDate F s = Some date"
  then show nb: "trim s \<noteq> []" using parseDate_blank [of s F] by auto
  from p have "length (split (separator F) s) = 3"
    using parseDate_wrong_count [of F s] by auto
  then obtain ys ms ds where sp: "split (separator F) s = layout F ys ms ds"
    using split_is_layout by blast
  from p parseDate_parts [OF nb sp]
  have c: "checked_Date (parseInt ys) (minus1 (parseInt ms)) (parseInt ds) = Some date"
    by simp
  note f = checked_Date_Some_fields [OF c]
  from f have "parseInt ms = Some (getMonth date + 1)" by (simp add: minus1_Some)
  with f sp show "\<exists>ys ms ds. split (separator F) s = layout F ys ms ds
            \<and> parseInt ys = Some (getFullYear date)
            \<and> parseInt ms = Some (getMonth date + 1)
            \<and> parseInt ds = Some (getDate date)" by blast
  from f show "valid_calendar_date date" by blast
  from f show "\<not> (0 \<le> getFullYear date \<and> getFullYear date \<le> 99)" by blast
next
  assume a: "trim s \<noteq> []
      \<and> (\<exists>ys ms ds. split (separator F) s = layout F ys ms ds
            \<and> parseInt ys = Some (getFullYear date)
            \<and> parseInt ms = Some (getMonth date + 1)
            \<and> parseInt ds = Some (getDate date))
      \<and> valid_calendar_date date
      \<and> \<not> (0 \<le> getFullYear date \<and> getFullYear date \<le> 99)"
  then obtain ys ms ds where sp: "split (separator F) s = layout F ys ms ds"
    and y: "parseInt ys = Some (getFullYear date)"
    and m: "parseInt ms = Some (getMonth date + 1)"
    and d: "parseInt ds = Some (getDate date)" by blast
  from a have nb: "trim s \<noteq> []" and v: "valid_calendar_date date"
    and ny: "\<not> (0 \<le> getFullYear date \<and> getFullYear date \<le> 99)" by blast+
  have "parseDate F s = checked_Date (parseInt ys) (minus1 (parseInt ms)) (parseInt ds)"
    using nb sp by (rule parseDate_parts)
  also have "\<dots> = checked_Date (Some (getFullYear date)) (Some (getMonth date)) (Some (getDate date))"
    by (simp add: y m d minus1_def)
  also have "\<dots> = Some date" using v ny by (rule checked_Date_valid)
  finally show "parseDate F s = Some date" .
next
  show "parseDate DD_MM_YYYY ''31/02/2024'' = None" by code_simp
next
  show "new_Date (Some 2024) (Some 1) (Some 31) = Some (day_of 2024 2 2)" by code_simp
qed

theorem parseDate_Some_iff_witness:
  "parseDate DD_MM_YYYY ''29/02/2024'' = Some (day_of 2024 1 29)
   \<and> valid_calendar_date (day_of 2024 1 29)
   \<and> parseDate DD_MM_YYYY ''31/02/2024'' = None"
proof -
  have p: "parseDate DD_MM_YYYY ''29/02/2024'' = Some (day_of 2024 1 29)" by code_simp
  from parseDate_Some_iff [of DD_MM_YYYY "''29/02/2024''" "day_of 2024 1 29"] p
  show ?thesis by blast
qed

text \<open>
  Claim C5 as stated fails on a component that is not a number but begins with digits:
  "15x/06/2024" parses to 15 June 2024.
\<close>

theorem parseDate_trailing_text_counterexample:
  "split CHR ''/'' ''15x/06/2024'' = [''15x'', ''06'', ''2024'']
   \<and> \<not> list_all isDigit ''15x''
   \<and> parseDate DD_MM_YYYY ''15x/06/2024'' = Some (day_of 2024 5 15)"
  by code_simp

lemma first_failure_example: "first_failure [None, Some ''a'', Some ''b''] = ''a''"
  by simp

text \<open>
  Claim C3, as amended. For every input text, \<open>validateDate\<close> accepts a blank text without
  any check when the field is not required; otherwise it applies the checks required,
  parseable in the configured format, not before \<open>minDate\<close>, not after \<open>maxDate\<close> in that
  order and reports the message of the first that fails. With the bounds 2025-01-01 and
  2025-12-31 in DD/MM/YYYY, "15/13/2025" gives the format error and "01/01/2024" the
  min-date error.
\<close>

theorem validateDate_first_failure:
  "validateDate p text
     = (if \<not> required p \<and> trim text = [] then [] else checks_in_order p text)
   \<and> validateDate (within_2025 req) ''15/13/2025'' = ''Invalid date format. Use DD/MM/YYYY''
   \<and> validateDate (within_2025 req) ''01/01/2024'' = ''Date must be after 01/01/2025''"
proof (intro conjI)
  show "validateDate p text
     = (if \<not> required p \<and> trim text = [] then [] else checks_in_order p text)"
    by (cases "minDate p"; cases "maxDate p"; cases "parseDate (format p) text")
       (simp_all add: validateDate_def checks_in_order_def required_check_def format_check_def
          min_check_def max_check_def)
next
  have nb: "trim ''15/13/2025'' \<noteq> []" by code_simp
  have pn: "parseDate DD_MM_YYYY ''15/13/2025'' = None" by code_simp
  show "validateDate (within_2025 req) ''15/13/2025'' = ''Invalid date format. Use DD/MM/YYYY''"
    using nb by (simp add: validateDate_def within_2025_def pn)
next
  have nb: "trim ''01/01/2024'' \<noteq> []" by code_simp
  have ps: "parseDate DD_MM_YYYY ''01/01/2024'' = Some (day_of 2024 0 1)" by code_simp
  have lt: "Date_less (day_of 2024 0 1) (day_of 2025 0 1)" by code_simp
  have fm: "formatDate DD_MM_YYYY (day_of 2025 0 1) = ''01/01/2025''" by code_simp
  show "validateDate (within_2025 req) ''01/01/2024'' = ''Date must be after 01/01/2025''"
    using nb by (simp add: validateDate_def within_2025_def ps lt fm)
qed

theorem validateDate_first_failure_witness:
  "validateDate (within_2025 False) [] = []
   \<and> validateDate (within_2025 True) [] = ''Date is required''
   \<and> validateDate (within_2025 True) ''01/01/2026'' = ''Date must be before 31/12/2025''
   \<and> validateDate (within_2025 True) ''15/13/2025'' = ''Invalid date format. Use DD/MM/YYYY''"
proof -
  have a: "\<not> required (within_2025 False) \<and> trim [] = []"
    by (simp add: within_2025_def trim_def)
  have b: "\<not> (\<not> required (within_2025 True) \<and> trim [] = [])"
    by (simp add: within_2025_def)
  have c: "\<not> (\<not> required (within_2025 True) \<and> trim ''01/01/2026'' = [])"
    by (simp add: within_2025_def)
  have cb: "checks_in_order (within_2025 True) [] = ''Date is required''" by code_simp
  have cc: "checks_in_order (within_2025 True) ''01/01/2026'' = ''Date must be before 31/12/2025''"
    by code_simp
  from validateDate_first_failure [of "within_2025 False" "[]" True] a
  have 1: "validateDate (within_2025 False) [] = []" by simp
  from validateDate_first_failure [of "within_2025 True" "[]" True] b cb
  have 2: "validateDate (within_2025 True) [] = ''Date is required''"
    and 4: "validateDate (within_2025 True) ''15/13/2025'' = ''Invalid date format. Use DD/MM/YYYY''"
    by simp_all
  from validateDate_first_failure [of "within_2025 True" "''01/01/2026''" True] c cc
  have 3: "validateDate (within_2025 True) ''01/01/2026'' = ''Date must be before 31/12/2025''"
    by simp
  from 1 2 3 4 show ?thesis by blast
qed

text \<open>
  Claim C3 as stated fails on a blank text in a field that is not required: the text is not
  parseable, so the checks in order give the format error, and \<open>validateDate\<close> gives none.
\<close>

theorem validateDate_blank_optional_counterexample:
  "parseDate DD_MM_YYYY [] = None
   \<and> checks_in_order (within_2025 False) [] = ''Invalid date format. Use DD/MM/YYYY''
   \<and> validateDate (within_2025 False) [] = []"
  by code_simp

section \<open>Properties of the date field's change handler\<close>

text \<open>
  Claim C9. The claim asks that every manual text change is handled normally and emitted to
  the form. In the source every call of \<open>handleTextChange\<close>, touched or not, ends in a
  ReferenceError after the text has been stored, and nothing is passed to \<open>onChange\<close>.
\<close>

theorem handleTextChange_raises:
  "snd (handleTextChange p s text) = Inl ReferenceError
   \<and> textValue (fst (handleTextChange p s text)) = text"
  by (simp add: handleTextChange_def Let_def)

lemma handleTextChange_untouched_example:
  "handleTextChange \<lparr>format = DD_MM_YYYY, minDate = None, maxDate = None, required = False\<rparr>
     (CalendarPicker_mount []) ''15/06/2025''
   = (\<lparr>textValue = ''15/06/2025'', error = [], isTouched_date = False\<rparr>, Inl ReferenceError)"
  by (simp add: handleTextChange_def CalendarPicker_mount_def)

section \<open>Properties of the animated counter\<close>

lemma validDuration_pos: "0 < validDuration p"
  by (simp add: validDuration_def max_def)

text \<open>
  Claim C6. From \<open>running\<close> with progress \<open>p\<close>, \<open>handleStop\<close> gives \<open>paused\<close>, keeps the
  progress at \<open>p\<close> and cancels the interpolation; \<open>handleStart\<close> then gives \<open>running\<close> with a
  new interpolation from \<open>p\<close> to 1 over the configured duration times \<open>1 - p\<close>, with the
  configured easing. That duration is the full one only when \<open>p = 0\<close>.
\<close>

theorem stop_then_start_resumes:
  assumes "state c = running"
  shows "state (handleStop c) = paused
       \<and> progress (handleStop c) = progress c
       \<and> animation (handleStop c) = None
       \<and> handleStart p (handleStop c)
           = c\<lparr>state := running,
                animation := Some \<lparr>fromValue = progress c, toValue = 1,
                                    duration = validDuration p * 1000 * (1 - progress c),
                                    timing_easing = easing p\<rparr>\<rparr>
       \<and> (validDuration p * 1000 * (1 - progress c) = validDuration p * 1000
            \<longleftrightarrow> progress c = 0)"
proof -
  have stop: "handleStop c = c\<lparr>state := paused, animation := None\<rparr>"
    using assms by (simp add: handleStop_def cancelAnimation_def)
  have start: "handleStart p (c\<lparr>state := paused, animation := None\<rparr>)
      = c\<lparr>state := running,
           animation := Some \<lparr>fromValue = progress c, toValue = 1,
                               duration = validDuration p * 1000 * (1 - progress c),
                               timing_easing = easing p\<rparr>\<rparr>"
    by (simp add: handleStart_def withTiming_def Let_def)
  have "validDuration p * 1000 \<noteq> 0" using validDuration_pos [of p] by simp
  then have dur: "validDuration p * 1000 * (1 - progress c) = validDuration p * 1000
      \<longleftrightarrow> progress c = 0"
    by (simp add: algebra_simps)
  show ?thesis using stop start dur by simp
qed

theorem stop_then_start_resumes_witness:
  "animation (handleStart \<lparr>targetNumber = 100, durationSec = 10, easing = linear\<rparr>
     (handleStop \<lparr>state = running, progress = 1 / 2, 
                  animation = Some \<lparr>fromValue = 0, toValue = 1, duration = 10000, timing_easing = linear\<rparr>,
                  displayValue = ''50''\<rparr>))
   = Some \<lparr>fromValue = 1 / 2, toValue = 1, duration = 5000, timing_easing = linear\<rparr>"
proof -
  let ?c = "\<lparr>state = running, progress = 1 / 2, 
                  animation = Some \<lparr>fromValue = 0, toValue = 1, duration = 10000, timing_easing = linear\<rparr>,
                  displayValue = ''50''\<rparr>"
  have h: "state ?c = running" by simp
  from stop_then_start_resumes [OF h, of "\<lparr>targetNumber = 100, durationSec = 10, easing = linear\<rparr>"]
  show ?thesis by (simp add: validDuration_def)
qed

lemma restart_any_state:
  "state (handleRestart p c) = running \<and> progress (handleRestart p c) = 0"
  by (simp add: handleRestart_def withTiming_def cancelAnimation_def)


















lemma stop_cancels_example:
  "notified (run ten_seconds TimerSystem_mount [start, stop, reachesOne, deliver]) = 0
   \<and> pending (run ten_seconds TimerSystem_mount [start, stop, reachesOne, deliver]) = 0"
  by (simp add: TimerSystem_mount_def CounterTimer_mount_def handleStart_def handleStop_def
      withTiming_def cancelAnimation_def Let_def)


section \<open>Properties of the file selection set\<close>

lemma filter_assets_all_pass:
  "list_all (\<lambda>a. type_ok p a \<and> size_ok p a) cands \<Longrightarrow>
   filter_assets p cands = (map to_file cands, [])"
  by (induction cands) simp_all

lemma size_ok_to_file: "size_ok p a \<Longrightarrow> file_size (to_file a) \<le> maxSizePerFile p"
  by (auto simp: size_ok_def to_file_def split: option.splits)

lemma validateFiles_within:
  assumes "u \<noteq> []" and "length u \<le> maxFiles p"
    and "list_all (\<lambda>f. file_size f \<le> maxSizePerFile p) u"
    and "totalSize u \<le> maxTotalSize p"
  shows "validateFiles p u = []"
proof -
  have "find (\<lambda>file. file_size file > maxSizePerFile p) u = None"
    using assms(3) by (auto simp: find_None_iff list_all_iff)
  then show ?thesis
    using assms by (simp add: validateFiles_def)
qed

lemma max_files_message_3: "maxFiles p = 3 \<Longrightarrow> max_files_message p = ''Maximum 3 file(s) allowed''"
  by (simp add: max_files_message_def String_def digits_of_nat.simps digit_char_def
      decimal_digits_def)

lemma handlePickFiles_commit:
  assumes "length (files s) < maxFiles p"
    and "filter_assets p cands = (new, al)"
    and "new \<noteq> []"
    and "u = take (maxFiles p) (files s @ new)"
    and "validateFiles p u = []"
  shows "handlePickFiles p s (picked cands)
     = (s\<lparr>files := u, error_files := [], isTouched_files := True\<rparr>, al @ [OnChange u])"
  using assms by (simp add: handlePickFiles_def picked_def Let_def del: take_append)

text \<open>
  Claim C1, as amended. When the set already holds \<open>maxFiles\<close> files or more,
  \<open>handlePickFiles\<close> leaves the files as they are and sets the error to the maximum-files
  message, which reads "Maximum 3 file(s) allowed" for \<open>maxFiles = 3\<close>. When it holds fewer
  and is given candidates that all pass the type and size tests, the list of the existing
  files followed by the candidates is cut to its first \<open>maxFiles\<close> entries and, the sizes
  being within the limits, committed with the error cleared.
\<close>

theorem requestAdd_truncates_or_refuses:
  "(maxFiles p \<le> length (files s) \<longrightarrow>
      files (fst (handlePickFiles p s r)) = files s
      \<and> error_files (fst (handlePickFiles p s r)) = max_files_message p
      \<and> (maxFiles p = 3 \<longrightarrow> max_files_message p = ''Maximum 3 file(s) allowed''))
   \<and> (length (files s) < maxFiles p \<and> cands \<noteq> []
       \<and> list_all (\<lambda>a. type_ok p a \<and> size_ok p a) cands
       \<and> list_all (\<lambda>f. file_size f \<le> maxSizePerFile p) (files s)
       \<and> totalSize (take (maxFiles p) (files s @ map to_file cands)) \<le> maxTotalSize p \<longrightarrow>
      handlePickFiles p s (picked cands)
        = (s\<lparr>files := take (maxFiles p) (files s @ map to_file cands),
              error_files := [], isTouched_files := True\<rparr>,
           [OnChange (take (maxFiles p) (files s @ map to_file cands))]))"
proof (intro conjI impI)
  assume full: "maxFiles p \<le> length (files s)"
  then show "files (fst (handlePickFiles p s r)) = files s"
    by (simp add: handlePickFiles_def Let_def)
  from full show "error_files (fst (handlePickFiles p s r)) = max_files_message p"
    by (simp add: handlePickFiles_def Let_def)
next
  assume "maxFiles p = 3"
  then show "max_files_message p = ''Maximum 3 file(s) allowed''"
    by (rule max_files_message_3)
next
  define u where "u = take (maxFiles p) (files s @ map to_file cands)"
  assume h: "length (files s) < maxFiles p \<and> cands \<noteq> []
       \<and> list_all (\<lambda>a. type_ok p a \<and> size_ok p a) cands
       \<and> list_all (\<lambda>f. file_size f \<le> maxSizePerFile p) (files s)
       \<and> totalSize (take (maxFiles p) (files s @ map to_file cands)) \<le> maxTotalSize p"
  from h have room: "length (files s) < maxFiles p" by blast
  from h have ne: "cands \<noteq> []" by blast
  from h have pass: "list_all (\<lambda>a. type_ok p a \<and> size_ok p a) cands" by blast
  from h have old: "list_all (\<lambda>f. file_size f \<le> maxSizePerFile p) (files s)" by blast
  from h have tot: "totalSize u \<le> maxTotalSize p" unfolding u_def by blast
  have fa: "filter_assets p cands = (map to_file cands, [])"
    using pass by (rule filter_assets_all_pass)
  have u_ne: "u \<noteq> []" unfolding u_def using room ne by (cases "files s") auto
  have u_len: "length u \<le> maxFiles p" unfolding u_def by simp
  have "list_all (\<lambda>f. file_size f \<le> maxSizePerFile p) (files s @ map to_file cands)"
    using pass old by (auto simp: list_all_iff size_ok_to_file)
  then have u_sz: "list_all (\<lambda>f. file_size f \<le> maxSizePerFile p) u"
    unfolding u_def by (auto simp: list_all_iff dest: in_set_takeD)
  have v: "validateFiles p u = []"
    using u_ne u_len u_sz tot by (rule validateFiles_within)
  have new_ne: "map to_file cands \<noteq> []" using ne by simp
  have "handlePickFiles p s (picked cands)
        = (s\<lparr>files := u, error_files := [], isTouched_files := True\<rparr>, [] @ [OnChange u])"
    using room fa new_ne u_def v by (rule handlePickFiles_commit)
  then show "handlePickFiles p s (picked cands)
        = (s\<lparr>files := take (maxFiles p) (files s @ map to_file cands),
              error_files := [], isTouched_files := True\<rparr>,
           [OnChange (take (maxFiles p) (files s @ map to_file cands))])"
    unfolding u_def by simp
qed

lemma type_ok_defaults: "type_ok FilePicker_defaults a"
  by (simp add: type_ok_def isFileTypeAllowed_def FilePicker_defaults_def)

lemma size_ok_pdf: "size_ok FilePicker_defaults (pdf_asset n)"
  by (simp add: size_ok_def pdf_asset_def FilePicker_defaults_def)

lemma to_file_pdf: "to_file (pdf_asset n) = pdf_file n"
  by (simp add: to_file_def pdf_asset_def pdf_file_def)

text \<open>
  Claim C1 as stated fails: with \<open>maxFiles = 3\<close>, an empty set and four candidates that pass
  the filters, the first three are committed and no error is set.
\<close>

theorem requestAdd_four_candidates_counterexample:
  "maxFiles FilePicker_defaults = 3
   \<and> length four_assets = 4
   \<and> type_ok FilePicker_defaults (four_assets ! 0) \<and> size_ok FilePicker_defaults (four_assets ! 0)
   \<and> type_ok FilePicker_defaults (four_assets ! 1) \<and> size_ok FilePicker_defaults (four_assets ! 1)
   \<and> type_ok FilePicker_defaults (four_assets ! 2) \<and> size_ok FilePicker_defaults (four_assets ! 2)
   \<and> type_ok FilePicker_defaults (four_assets ! 3) \<and> size_ok FilePicker_defaults (four_assets ! 3)
   \<and> handlePickFiles FilePicker_defaults (FilePicker_mount []) (picked four_assets)
       = (\<lparr>files = [pdf_file ''a.pdf'', pdf_file ''b.pdf'', pdf_file ''c.pdf''],
           error_files = [], isTouched_files = True\<rparr>,
          [OnChange [pdf_file ''a.pdf'', pdf_file ''b.pdf'', pdf_file ''c.pdf'']])
   \<and> error_files (fst (handlePickFiles FilePicker_defaults (FilePicker_mount [])
                          (picked four_assets))) \<noteq> ''Maximum 3 file(s) allowed''
   \<and> files (fst (handlePickFiles FilePicker_defaults (FilePicker_mount []) (picked four_assets)))
       \<noteq> files (FilePicker_mount [])"
proof -
  have fa: "filter_assets FilePicker_defaults four_assets
      = ([pdf_file ''a.pdf'', pdf_file ''b.pdf'', pdf_file ''c.pdf'', pdf_file ''d.pdf''], [])"
    by (simp add: four_assets_def type_ok_defaults size_ok_pdf to_file_pdf)
  have v: "validateFiles FilePicker_defaults
      [pdf_file ''a.pdf'', pdf_file ''b.pdf'', pdf_file ''c.pdf''] = []"
    by (simp add: validateFiles_def FilePicker_defaults_def pdf_file_def totalSize_def)
  have run: "handlePickFiles FilePicker_defaults (FilePicker_mount []) (picked four_assets)
       = (\<lparr>files = [pdf_file ''a.pdf'', pdf_file ''b.pdf'', pdf_file ''c.pdf''],
           error_files = [], isTouched_files = True\<rparr>,
          [OnChange [pdf_file ''a.pdf'', pdf_file ''b.pdf'', pdf_file ''c.pdf'']])"
  proof -
    have m: "maxFiles FilePicker_defaults = 3" by (simp add: FilePicker_defaults_def)
    show ?thesis
      by (simp add: handlePickFiles_def picked_def fa Let_def FilePicker_mount_def m v)
  qed
  have m: "maxFiles FilePicker_defaults = 3" by (simp add: FilePicker_defaults_def)
  have n: "length four_assets = 4" by (simp add: four_assets_def)
  have t: "type_ok FilePicker_defaults (four_assets ! 0)" "type_ok FilePicker_defaults (four_assets ! 1)"
    "type_ok FilePicker_defaults (four_assets ! 2)" "type_ok FilePicker_defaults (four_assets ! 3)"
    by (rule type_ok_defaults)+
  have z: "size_ok FilePicker_defaults (four_assets ! 0)" "size_ok FilePicker_defaults (four_assets ! 1)"
    "size_ok FilePicker_defaults (four_assets ! 2)" "size_ok FilePicker_defaults (four_assets ! 3)"
    by (simp_all add: four_assets_def size_ok_pdf)
  have e: "error_files (fst (handlePickFiles FilePicker_defaults (FilePicker_mount [])
                          (picked four_assets))) \<noteq> ''Maximum 3 file(s) allowed''"
    by (simp add: run)
  have f: "files (fst (handlePickFiles FilePicker_defaults (FilePicker_mount []) (picked four_assets)))
       \<noteq> files (FilePicker_mount [])"
    unfolding run by (simp add: FilePicker_mount_def)
  from m n t z run e f show ?thesis by blast
qed

theorem requestAdd_truncates_or_refuses_witness:
  "maxFiles FilePicker_defaults
     \<le> length (files \<lparr>files = [pdf_file ''a.pdf'', pdf_file ''b.pdf'', pdf_file ''c.pdf''],
                       error_files = [], isTouched_files = False\<rparr>)
   \<and> files (fst (handlePickFiles FilePicker_defaults
        \<lparr>files = [pdf_file ''a.pdf'', pdf_file ''b.pdf'', pdf_file ''c.pdf''],
         error_files = [], isTouched_files = False\<rparr> (picked four_assets)))
       = [pdf_file ''a.pdf'', pdf_file ''b.pdf'', pdf_file ''c.pdf'']
   \<and> error_files (fst (handlePickFiles FilePicker_defaults
        \<lparr>files = [pdf_file ''a.pdf'', pdf_file ''b.pdf'', pdf_file ''c.pdf''],
         error_files = [], isTouched_files = False\<rparr> (picked four_assets)))
       = ''Maximum 3 file(s) allowed''
   \<and> length (files (FilePicker_mount [pdf_file ''a.pdf''])) < maxFiles FilePicker_defaults
   \<and> handlePickFiles FilePicker_defaults (FilePicker_mount [pdf_file ''a.pdf''])
        (picked [pdf_asset ''b.pdf'', pdf_asset ''c.pdf'', pdf_asset ''d.pdf''])
       = (\<lparr>files = [pdf_file ''a.pdf'', pdf_file ''b.pdf'', pdf_file ''c.pdf''],
           error_files = [], isTouched_files = True\<rparr>,
          [OnChange [pdf_file ''a.pdf'', pdf_file ''b.pdf'', pdf_file ''c.pdf'']])"
proof -
  let ?full = "\<lparr>files = [pdf_file ''a.pdf'', pdf_file ''b.pdf'', pdf_file ''c.pdf''],
                 error_files = [], isTouched_files = False\<rparr>"
  let ?one = "FilePicker_mount [pdf_file ''a.pdf'']"
  let ?cands = "[pdf_asset ''b.pdf'', pdf_asset ''c.pdf'', pdf_asset ''d.pdf'']"
  have m: "maxFiles FilePicker_defaults = 3" by (simp add: FilePicker_defaults_def)
  have full: "maxFiles FilePicker_defaults \<le> length (files ?full)" by (simp add: m)
  have room: "length (files ?one) < maxFiles FilePicker_defaults"
    by (simp add: m FilePicker_mount_def)
  have pass: "list_all (\<lambda>a. type_ok FilePicker_defaults a \<and> size_ok FilePicker_defaults a) ?cands"
    by (simp add: type_ok_defaults size_ok_pdf)
  have old: "list_all (\<lambda>f. file_size f \<le> maxSizePerFile FilePicker_defaults) (files ?one)"
    by (simp add: FilePicker_mount_def pdf_file_def FilePicker_defaults_def)
  have u: "take (maxFiles FilePicker_defaults) (files ?one @ map to_file ?cands)
      = [pdf_file ''a.pdf'', pdf_file ''b.pdf'', pdf_file ''c.pdf'']"
    by (simp add: m FilePicker_mount_def to_file_pdf)
  have tot: "totalSize (take (maxFiles FilePicker_defaults) (files ?one @ map to_file ?cands))
      \<le> maxTotalSize FilePicker_defaults"
    unfolding u by (simp add: totalSize_def pdf_file_def FilePicker_defaults_def)
  note th1 = requestAdd_truncates_or_refuses
    [of FilePicker_defaults ?full "picked four_assets" "[]"]
  note th2 = requestAdd_truncates_or_refuses
    [of FilePicker_defaults ?one "picked four_assets" ?cands]
  from th1 full m have a: "files (fst (handlePickFiles FilePicker_defaults ?full (picked four_assets)))
        = files ?full
      \<and> error_files (fst (handlePickFiles FilePicker_defaults ?full (picked four_assets)))
        = ''Maximum 3 file(s) allowed''"
    by metis
  from th2 room pass old tot have "handlePickFiles FilePicker_defaults ?one (picked ?cands)
      = (?one\<lparr>files := take (maxFiles FilePicker_defaults) (files ?one @ map to_file ?cands),
               error_files := [], isTouched_files := True\<rparr>,
         [OnChange (take (maxFiles FilePicker_defaults) (files ?one @ map to_file ?cands))])"
    by blast
  then have b: "handlePickFiles FilePicker_defaults ?one (picked ?cands)
       = (\<lparr>files = [pdf_file ''a.pdf'', pdf_file ''b.pdf'', pdf_file ''c.pdf''],
           error_files = [], isTouched_files = True\<rparr>,
          [OnChange [pdf_file ''a.pdf'', pdf_file ''b.pdf'', pdf_file ''c.pdf'']])"
    unfolding u by (simp add: FilePicker_mount_def)
  from a have a1: "files (fst (handlePickFiles FilePicker_defaults ?full (picked four_assets)))
       = [pdf_file ''a.pdf'', pdf_file ''b.pdf'', pdf_file ''c.pdf'']" by simp
  from a have a2: "error_files (fst (handlePickFiles FilePicker_defaults ?full (picked four_assets)))
        = ''Maximum 3 file(s) allowed''" by blast
  from full a1 a2 room b show ?thesis by blast
qed

lemma validateFiles_violation:
  assumes "maxFiles p < length v \<or> maxTotalSize p < totalSize v"
  shows "validateFiles p v \<noteq> []"
proof (cases "maxFiles p < length v")
  case True
  then have "validateFiles p v = max_files_message p"
    by (auto simp: validateFiles_def)
  then show ?thesis by (simp add: max_files_message_def)
next
  case False
  with assms have big: "maxTotalSize p < totalSize v" by simp
  then have "v \<noteq> []" by (auto simp: totalSize_def)
  with False big show ?thesis
    by (simp add: validateFiles_def split: option.splits)
qed

text \<open>
  Claim C10. The component adopts its \<open>value\<close> prop at mount without validating it: for a
  list that breaks the count or the total-size limit, the files are that list and no error
  is set or shown, although \<open>validateFiles\<close> rejects the list; the error appears with the
  first operation that validates, such as a removal.
\<close>

theorem mount_adopts_value_unvalidated:
  assumes "maxFiles p < length v \<or> maxTotalSize p < totalSize v"
  shows "files (FilePicker_mount v) = v
       \<and> error_files (FilePicker_mount v) = []
       \<and> \<not> hasError_files (FilePicker_mount v)
       \<and> validateFiles p v \<noteq> []
       \<and> error_files (fst (handleRemoveFile p (FilePicker_mount v) i))
           = validateFiles p (remove_at i v)"
  using validateFiles_violation [OF assms]
  by (simp add: FilePicker_mount_def hasError_files_def handleRemoveFile_def Let_def)

theorem mount_adopts_value_unvalidated_witness:
  "maxFiles FilePicker_defaults
     < length [pdf_file ''a.pdf'', pdf_file ''b.pdf'', pdf_file ''c.pdf'', pdf_file ''d.pdf'']
   \<and> files (FilePicker_mount
        [pdf_file ''a.pdf'', pdf_file ''b.pdf'', pdf_file ''c.pdf'', pdf_file ''d.pdf''])
       = [pdf_file ''a.pdf'', pdf_file ''b.pdf'', pdf_file ''c.pdf'', pdf_file ''d.pdf'']
   \<and> error_files (FilePicker_mount
        [pdf_file ''a.pdf'', pdf_file ''b.pdf'', pdf_file ''c.pdf'', pdf_file ''d.pdf'']) = []
   \<and> validateFiles FilePicker_defaults
        [pdf_file ''a.pdf'', pdf_file ''b.pdf'', pdf_file ''c.pdf'', pdf_file ''d.pdf''] \<noteq> []"
proof -
  let ?v = "[pdf_file ''a.pdf'', pdf_file ''b.pdf'', pdf_file ''c.pdf'', pdf_file ''d.pdf'']"
  have h: "maxFiles FilePicker_defaults < length ?v"
    by (simp add: FilePicker_defaults_def)
  then have "maxFiles FilePicker_defaults < length ?v
      \<or> maxTotalSize FilePicker_defaults < totalSize ?v" by (rule disjI1)
  from mount_adopts_value_unvalidated [OF this] h show ?thesis by blast
qed

lemma validateFiles_four_example:
  "validateFiles FilePicker_defaults
     [pdf_file ''a.pdf'', pdf_file ''b.pdf'', pdf_file ''c.pdf'', pdf_file ''d.pdf'']
   = ''Maximum 3 file(s) allowed''"
  by (simp add: validateFiles_def FilePicker_defaults_def max_files_message_def String_def
      digits_of_nat.simps digit_char_def decimal_digits_def)

end
